theory Spec2Isabelle
  imports Main "HOL-Library.Sublist"
begin

section \<open>Errors\<close>

text \<open>
  Every error value the modelled functions build. The Go code wraps a message (and
  sometimes a cause) with \<^verbatim>\<open>errwrap.Wrap\<close> or \<^verbatim>\<open>fmt.Errorf\<close>; the
  constructors keep the arguments each message is formatted from. \<open>Wrap\<close> is
  \<^verbatim>\<open>errwrap.Wrap\<close> around a cause that comes from elsewhere, \<open>ExternalError\<close> an
  error of a library or of a function defined in another file.
\<close>

datatype error =
    DecodeCompressionError string
  | Wrap error string
  | AtoiError string
  | NotNaturalError int
  | NotWholeError int
  | LegacyConflictError string string
  | FileConflictError string string
  | UnsetenvError string
  | ReadFileError string
  | SetenvError string
  | UnsetBackError string
  | SetBackError string
  | CronParseError string
  | ExternalError string

section \<open>Custom value decoders (internal/config/config.go)\<close>

subsection \<open>strconv.Atoi\<close>

text \<open>
  \<^verbatim>\<open>strconv.Atoi\<close> of the Go standard library, for the 64-bit \<^verbatim>\<open>int\<close>: an optional
  sign, then at least one decimal digit and nothing else; a value outside the range of
  \<^verbatim>\<open>int\<close> is an error. \<open>None\<close> stands for the returned error.
\<close>

definition is_digit :: "char \<Rightarrow> bool" where
  "is_digit ch = (48 \<le> (of_char ch :: nat) \<and> (of_char ch :: nat) \<le> 57)"

fun digits_value :: "int \<Rightarrow> string \<Rightarrow> int" where
  "digits_value n [] = n"
| "digits_value n (ch # s) = digits_value (n * 10 + (int (of_char ch) - 48)) s"

definition Atoi :: "string \<Rightarrow> int option" where
  "Atoi s0 =
     (if s0 = [] then None
      else
        let neg = (hd s0 = CHR ''-'');
            s = (if hd s0 = CHR ''-'' \<or> hd s0 = CHR ''+'' then tl s0 else s0)
        in if s = [] then None
           else if list_all is_digit s then
             let n = (if neg then - digits_value 0 s else digits_value 0 s)
             in if - (2 ^ 63) \<le> n \<and> n \<le> 2 ^ 63 - 1 then Some n else None
           else None)"

subsection \<open>CompressionType, NaturalNumber, WholeNumber\<close>

text \<open>
  Each \<^verbatim>\<open>Decode\<close> method has a pointer receiver: it takes the receiver's current value
  and returns the error (\<open>None\<close> for \<^verbatim>\<open>nil\<close>) together with the receiver's new value.
\<close>

definition CompressionType_Decode :: "string \<Rightarrow> string \<Rightarrow> error option \<times> string" where
  "CompressionType_Decode c v =
     (if v = ''gz'' \<or> v = ''zst'' then (None, v)
      else (Some (DecodeCompressionError v), c))"

definition NaturalNumber_Decode :: "int \<Rightarrow> string \<Rightarrow> error option \<times> int" where
  "NaturalNumber_Decode n v =
     (case Atoi v of
        None \<Rightarrow> (Some (AtoiError v), n)
      | Some asInt \<Rightarrow>
          if asInt \<le> 0 then (Some (NotNaturalError asInt), n)
          else (None, asInt))"

definition WholeNumber_Decode :: "int \<Rightarrow> string \<Rightarrow> error option \<times> int" where
  "WholeNumber_Decode n v =
     (case Atoi v of
        None \<Rightarrow> (Some (AtoiError v), n)
      | Some asInt \<Rightarrow>
          if asInt < 0 then (Some (NotWholeError asInt), n)
          else (None, asInt))"

section \<open>The process environment (Go's \<^verbatim>\<open>os\<close> package)\<close>

text \<open>
  The process environment is a finite map from variable names to values. The four
  operations follow the Go standard library on Unix: \<^verbatim>\<open>os.LookupEnv\<close> returns the
  value and whether the variable is set; \<^verbatim>\<open>os.Unsetenv\<close> never fails;
  \<^verbatim>\<open>os.Setenv\<close> fails with \<^verbatim>\<open>EINVAL\<close> (here \<open>None\<close>) when the name is empty or holds
  \<^verbatim>\<open>=\<close> or a NUL byte, or when the value holds a NUL byte. \<^verbatim>\<open>os.ReadFile\<close> reads from
  a file system given as a map from paths to contents, \<open>None\<close> being any read error.
\<close>

type_synonym environ = "string \<rightharpoonup> string"

type_synonym filesystem = "string \<rightharpoonup> string"

definition NUL :: char where
  "NUL = CHR 0x00"

definition LookupEnv :: "environ \<Rightarrow> string \<Rightarrow> string \<times> bool" where
  "LookupEnv env k = (case env k of None \<Rightarrow> ('''', False) | Some v \<Rightarrow> (v, True))"

definition Unsetenv :: "string \<Rightarrow> environ \<Rightarrow> environ option" where
  "Unsetenv k env = Some (env(k := None))"

definition Setenv :: "string \<Rightarrow> string \<Rightarrow> environ \<Rightarrow> environ option" where
  "Setenv k v env =
     (if k = [] \<or> CHR ''='' \<in> set k \<or> NUL \<in> set k \<or> NUL \<in> set v then None
      else Some (env(k \<mapsto> v)))"

definition ReadFile :: "filesystem \<Rightarrow> string \<Rightarrow> string option" where
  "ReadFile fs name = fs name"

text \<open>
  \<^verbatim>\<open>strings.Cut(s, "=")\<close>: the text before and after the first \<^verbatim>\<open>=\<close>; without one,
  all of \<open>s\<close> and the empty string. \<^verbatim>\<open>strings.TrimPrefix\<close> drops the prefix when it
  is there.
\<close>

definition Cut :: "string \<Rightarrow> string \<times> string" where
  "Cut s = (takeWhile (\<lambda>ch. ch \<noteq> CHR ''='') s, drop 1 (dropWhile (\<lambda>ch. ch \<noteq> CHR ''='') s))"

definition TrimPrefix :: "string \<Rightarrow> string \<Rightarrow> string" where
  "TrimPrefix s p = (if prefix p s then drop (length p) s else s)"

section \<open>Compatibility layer (package config)\<close>

record envVarLookup =
  ok :: bool
  key :: string
  val :: string

record envVarMapping =
  from_name :: string
  to_name :: string

text \<open>
  The closure \<^verbatim>\<open>unset\<close>, written out three times in the source with the same body:
  it walks \<^verbatim>\<open>lookups\<close> from the first element on, unsets the variable of a snapshot
  taken when the variable was absent, sets any other back to the recorded value, and
  stops at the first failing call. It returns the error and the environment it leaves.
\<close>

fun unset :: "envVarLookup list \<Rightarrow> environ \<Rightarrow> error option \<times> environ" where
  "unset [] env = (None, env)"
| "unset (lookup # lookups) env =
     (if \<not> ok lookup then
        (case Unsetenv (key lookup) env of
           None \<Rightarrow> (Some (UnsetBackError (key lookup)), env)
         | Some env' \<Rightarrow> unset lookups env')
      else
        (case Setenv (key lookup) (val lookup) env of
           None \<Rightarrow> (Some (SetBackError (key lookup)), env)
         | Some env' \<Rightarrow> unset lookups env'))"

definition mapping :: "envVarMapping list" where
  "mapping =
     [\<lparr>from_name = ''AWS_ACCESS_KEY_ID'', to_name = ''OFFEN_STORAGE_AWS_ACCESSKEYID''\<rparr>,
      \<lparr>from_name = ''AWS_SECRET_ACCESS_KEY'', to_name = ''OFFEN_STORAGE_AWS_SECRETACCESSKEY''\<rparr>,
      \<lparr>from_name = ''AWS_SECRET_ACCESS_KEY_FILE'',
        to_name = ''FILE__OFFEN_STORAGE_AWS_SECRETACCESSKEY''\<rparr>,
      \<lparr>from_name = ''AWS_ENDPOINT'', to_name = ''OFFEN_STORAGE_AWS_ENDPOINT''\<rparr>,
      \<lparr>from_name = ''AWS_ENDPOINT_PROTO'', to_name = ''OFFEN_STORAGE_AWS_ENDPOINTPROTO''\<rparr>,
      \<lparr>from_name = ''AWS_S3_BUCKET_NAME'', to_name = ''OFFEN_STORAGE_AWS_BUCKETNAME''\<rparr>,
      \<lparr>from_name = ''BACKUP_FILENAME_EXPAND'', to_name = ''OFFEN_BACKUP_FILENAMEEXPAND''\<rparr>,
      \<lparr>from_name = ''BACKUP_FILENAME'', to_name = ''OFFEN_BACKUP_FILENAME''\<rparr>,
      \<lparr>from_name = ''BACKUP_CRON_EXPRESSION'', to_name = ''OFFEN_BACKUP_CRONEXPRESSION''\<rparr>,
      \<lparr>from_name = ''BACKUP_RETENTION_DAYS'', to_name = ''OFFEN_BACKUP_RETENTIONDAYS''\<rparr>,
      \<lparr>from_name = ''BACKUP_PRUNING_LEEWAY'', to_name = ''OFFEN_BACKUP_PRUNINGLEEWAY''\<rparr>,
      \<lparr>from_name = ''BACKUP_PRUNING_PREFIX'', to_name = ''OFFEN_BACKUP_PRUNINGPREFIX''\<rparr>]"

text \<open>
  The loop of \<^verbatim>\<open>mapLegacyVariables\<close> over the pairs still to visit, with the snapshots
  taken so far and the current environment. The results of \<^verbatim>\<open>os.Unsetenv\<close> and
  \<^verbatim>\<open>os.Setenv\<close> are dropped there, so a failed call leaves the environment as it was.
  The second snapshot carries \<^verbatim>\<open>value.from\<close> as its key, as the source has it.
  The result is the error, or the snapshots the returned closure holds, and the
  environment the call leaves behind.
\<close>

fun mapLegacyVariables_loop ::
  "envVarMapping list \<Rightarrow> envVarLookup list \<Rightarrow> environ \<Rightarrow> (error + envVarLookup list) \<times> environ"
where
  "mapLegacyVariables_loop [] lookups env = (Inr lookups, env)"
| "mapLegacyVariables_loop (m # ms) lookups env =
     (let (legacy, legacySet) = LookupEnv env (from_name m);
          lookups1 = lookups @ [\<lparr>ok = legacySet, key = from_name m, val = legacy\<rparr>]
      in if legacySet then
           let env1 = (case Unsetenv (from_name m) env of None \<Rightarrow> env | Some e \<Rightarrow> e);
               (new, newSet) = LookupEnv env1 (to_name m)
           in if newSet then
                (Inl (LegacyConflictError (to_name m) (from_name m)), env1)
              else
                let lookups2 = lookups1 @ [\<lparr>ok = newSet, key = from_name m, val = new\<rparr>];
                    env2 = (case Setenv (to_name m) legacy env1 of None \<Rightarrow> env1 | Some e \<Rightarrow> e)
                in mapLegacyVariables_loop ms lookups2 env2
         else mapLegacyVariables_loop ms lookups1 env)"

definition mapLegacyVariables :: "environ \<Rightarrow> (error + envVarLookup list) \<times> environ" where
  "mapLegacyVariables env = mapLegacyVariables_loop mapping [] env"

text \<open>
  The loop of \<^verbatim>\<open>mapEnvironmentFiles\<close> over \<^verbatim>\<open>vars\<close>, the entries \<^verbatim>\<open>NAME=value\<close> that
  \<^verbatim>\<open>env.FindPrefixedEnvVars(os.Environ(), "FILE__OFFEN_", c)\<close> of the paerser library
  returned; the list is a parameter of the model.
\<close>

fun mapEnvironmentFiles_loop ::
  "filesystem \<Rightarrow> string list \<Rightarrow> envVarLookup list \<Rightarrow> environ
    \<Rightarrow> (error + envVarLookup list) \<times> environ"
where
  "mapEnvironmentFiles_loop fs [] lookups env = (Inr lookups, env)"
| "mapEnvironmentFiles_loop fs (evr # vars) lookups env =
     (let (k, v) = Cut evr
      in case Unsetenv k env of
           None \<Rightarrow> (Inl (UnsetenvError k), env)
         | Some env1 \<Rightarrow>
             let lookups1 = lookups @ [\<lparr>ok = True, key = k, val = v\<rparr>];
                 newVar = TrimPrefix k ''FILE__'';
                 (new, newSet) = LookupEnv env1 newVar
             in if newSet then (Inl (FileConflictError newVar k), env1)
                else
                  (case ReadFile fs v of
                     None \<Rightarrow> (Inl (ReadFileError v), env1)
                   | Some contents \<Rightarrow>
                       (case Setenv newVar contents env1 of
                          None \<Rightarrow> (Inl (SetenvError newVar), env1)
                        | Some env2 \<Rightarrow>
                            mapEnvironmentFiles_loop fs vars
                              (lookups1 @ [\<lparr>ok = newSet, key = newVar, val = new\<rparr>]) env2)))"

definition mapEnvironmentFiles ::
  "string list \<Rightarrow> filesystem \<Rightarrow> environ \<Rightarrow> (error + envVarLookup list) \<times> environ"
where
  "mapEnvironmentFiles vars fs env = mapEnvironmentFiles_loop fs vars [] env"

text \<open>
  What the model takes for granted about \<^verbatim>\<open>vars\<close>: each entry is a variable of the
  current environment with its value, no variable occurs twice, every name starts with
  \<^verbatim>\<open>FILE__OFFEN_\<close>, and no entry holds a NUL byte (no entry of a process environment
  does).
\<close>

definition env_key :: "string \<Rightarrow> string" where
  "env_key evr = fst (Cut evr)"

definition env_val :: "string \<Rightarrow> string" where
  "env_val evr = snd (Cut evr)"

definition target :: "string \<Rightarrow> string" where
  "target evr = TrimPrefix (env_key evr) ''FILE__''"

definition prefixed_vars :: "environ \<Rightarrow> string list \<Rightarrow> bool" where
  "prefixed_vars env vars =
     (distinct (map env_key vars)
      \<and> (\<forall>evr \<in> set vars.
            prefix ''FILE__OFFEN_'' (env_key evr) \<and> NUL \<notin> set evr
            \<and> env (env_key evr) = Some (env_val evr)))"

text \<open>The two snapshots \<^verbatim>\<open>mapEnvironmentFiles\<close> takes for one entry, in the order taken.\<close>

definition snapshots :: "string \<Rightarrow> envVarLookup list" where
  "snapshots evr =
     [\<lparr>ok = True, key = env_key evr, val = env_val evr\<rparr>,
      \<lparr>ok = False, key = target evr, val = ''''\<rparr>]"

text \<open>
  A caller invoking the closure a mapping operation returned, on the environment the
  operation left: on an error the operation returns no closure (\<^verbatim>\<open>nil\<close>), so there
  is nothing to invoke.
\<close>

definition invoke_rollback ::
  "(error + envVarLookup list) \<times> environ \<Rightarrow> (error option \<times> environ) option"
where
  "invoke_rollback r =
     (case fst r of Inl e \<Rightarrow> None | Inr lookups \<Rightarrow> Some (unset lookups (snd r)))"

section \<open>CertDecoder (internal/config/config.go)\<close>

text \<open>
  \<^verbatim>\<open>pem.Decode\<close> and \<^verbatim>\<open>x509.ParseCertificate\<close> of the Go standard library are
  parameters: \<open>pem_Decode\<close> returns the first PEM block of its input, \<open>None\<close> for the
  \<^verbatim>\<open>nil\<close> block of an input without one. The source reads \<^verbatim>\<open>block.Bytes\<close> without a
  \<^verbatim>\<open>nil\<close> check, which is a run-time panic on a \<^verbatim>\<open>nil\<close> block.
\<close>

record pem_Block =
  Bytes :: string

record 'cert CertDecoder =
  Cert :: "'cert option"

datatype 'a outcome = Panics | Returns 'a

definition CertDecoder_Decode ::
  "filesystem \<Rightarrow> (string \<Rightarrow> pem_Block option) \<Rightarrow> (string \<Rightarrow> error + 'cert)
    \<Rightarrow> 'cert CertDecoder \<Rightarrow> string \<Rightarrow> (error option \<times> 'cert CertDecoder) outcome"
where
  "CertDecoder_Decode fs pem_Decode ParseCertificate c v =
     (if v = '''' then Returns (None, c)
      else
        let content = (case ReadFile fs v of None \<Rightarrow> v | Some content \<Rightarrow> content)
        in case pem_Decode content of
             None \<Rightarrow> Panics
           | Some block \<Rightarrow>
               (case ParseCertificate (Bytes block) of
                  Inl err \<Rightarrow> Returns (Some (Wrap err ''error parsing certificate''), c)
                | Inr cert \<Rightarrow> Returns (None, \<lparr>Cert = Some cert\<rparr>)))"

section \<open>Scheduler (package main, type \<^verbatim>\<open>command\<close>)\<close>

datatype configStrategy = configStrategyEnv | configStrategyConfd | configStrategyLabel

text \<open>The fields of package main's \<^verbatim>\<open>Config\<close> that the scheduler reads.\<close>

record Config =
  source :: string
  BackupCronExpression :: string

subsection \<open>The cron engine\<close>

text \<open>
  The engine of the robfig/cron library as far as the scheduler uses it: \<^verbatim>\<open>AddFunc\<close>
  parses the expression, returns the parser's error and leaves the engine alone when
  the parser rejects it, and otherwise adds an entry under the next identifier;
  \<^verbatim>\<open>Remove\<close> drops the entry with the given identifier, if there is one. The parser
  is the parameter \<open>valid\<close>. A job records which closure was registered.
\<close>

datatype job = RunScriptJob Config | RunProxyJob Config

record Cron =
  entries :: "(nat \<times> string \<times> job) list"
  nextID :: nat

definition cron_New :: Cron where
  "cron_New = \<lparr>entries = [], nextID = 0\<rparr>"

definition cron_AddFunc ::
  "(string \<Rightarrow> bool) \<Rightarrow> string \<Rightarrow> job \<Rightarrow> Cron \<Rightarrow> error + nat \<times> Cron"
where
  "cron_AddFunc valid spec cmd c =
     (if valid spec then
        Inr (nextID c + 1,
             \<lparr>entries = entries c @ [(nextID c + 1, spec, cmd)], nextID = nextID c + 1\<rparr>)
      else Inl (CronParseError spec))"

definition cron_Remove :: "nat \<Rightarrow> Cron \<Rightarrow> Cron" where
  "cron_Remove entryID c = c\<lparr>entries := filter (\<lambda>e. fst e \<noteq> entryID) (entries c)\<rparr>"

subsection \<open>The command\<close>

datatype log_record = LogInfo string | LogWarn string | LogError string

record command =
  logger :: "log_record list"
  schedules :: "configStrategy \<Rightarrow> nat list"
  cr :: Cron

text \<open>
  \<^verbatim>\<open>newCommand\<close> leaves \<^verbatim>\<open>cr\<close> unset; \<^verbatim>\<open>runInForeground\<close> assigns a new engine
  before it schedules anything. The unset engine is represented by the empty one.
\<close>

definition newCommand :: command where
  "newCommand = \<lparr>logger = [], schedules = (\<lambda>strategy. []), cr = cron_New\<rparr>"

text \<open>
  \<^verbatim>\<open>sourceConfiguration\<close> and \<^verbatim>\<open>checkCronSchedule\<close> are functions of the repository
  defined in other files; both are parameters. \<^verbatim>\<open>checkCronSchedule\<close> returns false
  for an expression that never fires.
\<close>

definition remove_schedules :: "nat list \<Rightarrow> Cron \<Rightarrow> Cron" where
  "remove_schedules ids c = foldl (\<lambda>c entryID. cron_Remove entryID c) c ids"

fun scheduleConfd_loop ::
  "(string \<Rightarrow> bool) \<Rightarrow> (string \<Rightarrow> bool) \<Rightarrow> Config list \<Rightarrow> command \<Rightarrow> error option \<times> command"
where
  "scheduleConfd_loop valid checkCronSchedule [] c = (None, c)"
| "scheduleConfd_loop valid checkCronSchedule (config # cfgs) c =
     (case cron_AddFunc valid (BackupCronExpression config) (RunScriptJob config) (cr c) of
        Inl err \<Rightarrow>
          (Some (Wrap err (''error adding schedule '' @ BackupCronExpression config)), c)
      | Inr (entryID, cr') \<Rightarrow>
          let c1 = c\<lparr>cr := cr',
                    logger := logger c @
                      [LogInfo (''Successfully scheduled backup '' @ source config
                         @ '' with expression '' @ BackupCronExpression config)]\<rparr>
          in if \<not> checkCronSchedule (BackupCronExpression config) then
               scheduleConfd_loop valid checkCronSchedule cfgs
                 (c1\<lparr>logger := logger c1 @
                       [LogWarn (''Scheduled cron expression '' @ BackupCronExpression config
                          @ '' will never run, is this intentional?'')],
                     schedules := (schedules c1)
                       (configStrategyConfd := schedules c1 configStrategyConfd @ [entryID])\<rparr>)
             else scheduleConfd_loop valid checkCronSchedule cfgs c1)"

definition scheduleConfd ::
  "(string \<Rightarrow> bool) \<Rightarrow> (string \<Rightarrow> bool) \<Rightarrow> (configStrategy \<Rightarrow> error + Config list)
    \<Rightarrow> command \<Rightarrow> error option \<times> command"
where
  "scheduleConfd valid checkCronSchedule sourceConfiguration c =
     (let c0 = c\<lparr>cr := remove_schedules (schedules c configStrategyConfd) (cr c)\<rparr>
      in case sourceConfiguration configStrategyConfd of
           Inl err \<Rightarrow> (Some (Wrap err ''error sourcing configuration''), c0)
         | Inr configurations \<Rightarrow>
             scheduleConfd_loop valid checkCronSchedule configurations c0)"

text \<open>Two reloads in succession, the second on the command the first one left.\<close>

definition scheduleConfd_twice ::
  "(string \<Rightarrow> bool) \<Rightarrow> (string \<Rightarrow> bool) \<Rightarrow> (configStrategy \<Rightarrow> error + Config list)
    \<Rightarrow> command \<Rightarrow> error option \<times> command"
where
  "scheduleConfd_twice valid checkCronSchedule sourceConfiguration c =
     (case scheduleConfd valid checkCronSchedule sourceConfiguration c of
        (Some err, c1) \<Rightarrow> (Some err, c1)
      | (None, c1) \<Rightarrow> scheduleConfd valid checkCronSchedule sourceConfiguration c1)"

fun scheduleLabel_loop ::
  "(string \<Rightarrow> bool) \<Rightarrow> (string \<Rightarrow> bool) \<Rightarrow> Config list \<Rightarrow> command \<Rightarrow> error option \<times> command"
where
  "scheduleLabel_loop valid checkCronSchedule [] c = (None, c)"
| "scheduleLabel_loop valid checkCronSchedule (cfg # cfgs) c =
     (let c1 = (if \<not> checkCronSchedule (BackupCronExpression cfg) then
                  c\<lparr>logger := logger c @
                      [LogWarn (''Scheduled cron expression '' @ BackupCronExpression cfg
                         @ '' will never run, is this intentional?'')]\<rparr>
                else c)
      in case cron_AddFunc valid (BackupCronExpression cfg) (RunProxyJob cfg) (cr c1) of
           Inl err \<Rightarrow>
             (Some (Wrap err (''error adding schedule '' @ BackupCronExpression cfg)), c1)
         | Inr (entryID, cr') \<Rightarrow>
             scheduleLabel_loop valid checkCronSchedule cfgs
               (c1\<lparr>cr := cr',
                   logger := logger c1 @
                     [LogInfo (''Successfully scheduled backup '' @ source cfg
                        @ '' with expression '' @ BackupCronExpression cfg)],
                   schedules := (schedules c1)
                     (configStrategyConfd := schedules c1 configStrategyConfd @ [entryID])\<rparr>))"

definition scheduleLabel ::
  "(string \<Rightarrow> bool) \<Rightarrow> (string \<Rightarrow> bool) \<Rightarrow> (configStrategy \<Rightarrow> error + Config list)
    \<Rightarrow> command \<Rightarrow> error option \<times> command"
where
  "scheduleLabel valid checkCronSchedule sourceConfiguration c =
     (let c0 = c\<lparr>cr := remove_schedules (schedules c configStrategyLabel) (cr c)\<rparr>
      in case sourceConfiguration configStrategyLabel of
           Inl err \<Rightarrow> (Some (Wrap err ''error sourcing configuration''), c0)
         | Inr configurations \<Rightarrow>
             scheduleLabel_loop valid checkCronSchedule configurations c0)"

subsection \<open>runAsCommand\<close>

text \<open>
  \<^verbatim>\<open>runScript\<close> and \<^verbatim>\<open>runProxy\<close> are parameters giving the error each run returns.
  The result is the returned error and the runs started, in order. Each loop returns
  \<open>None\<close> when it falls through without a match.
\<close>

datatype run = RunScript Config | RunProxy Config

fun runAsCommand_env ::
  "(Config \<Rightarrow> error option) \<Rightarrow> string \<Rightarrow> Config list \<Rightarrow> (error option \<times> run list) option"
where
  "runAsCommand_env runScript opts_source [] = None"
| "runAsCommand_env runScript opts_source (config # configurations) =
     (if source config = opts_source then
        (case runScript config of
           Some err \<Rightarrow> Some (Some (Wrap err ''error running script''), [RunScript config])
         | None \<Rightarrow> Some (None, [RunScript config]))
      else runAsCommand_env runScript opts_source configurations)"

fun runAsCommand_label ::
  "(Config \<Rightarrow> error option) \<Rightarrow> string \<Rightarrow> Config list \<Rightarrow> (error option \<times> run list) option"
where
  "runAsCommand_label runProxy opts_source [] = None"
| "runAsCommand_label runProxy opts_source (config # configurations) =
     (if source config = opts_source then
        (case runProxy config of
           Some err \<Rightarrow> Some (Some (Wrap err ''error running script''), [RunProxy config])
         | None \<Rightarrow> Some (None, [RunProxy config]))
      else runAsCommand_label runProxy opts_source configurations)"

definition runAsCommand ::
  "(configStrategy \<Rightarrow> error + Config list) \<Rightarrow> (Config \<Rightarrow> error option)
    \<Rightarrow> (Config \<Rightarrow> error option) \<Rightarrow> string \<Rightarrow> error option \<times> run list"
where
  "runAsCommand sourceConfiguration runScript runProxy opts_source =
     (case sourceConfiguration configStrategyEnv of
        Inl err \<Rightarrow> (Some (Wrap err ''error loading env vars''), [])
      | Inr configurations \<Rightarrow>
          (case runAsCommand_env runScript opts_source configurations of
             Some r \<Rightarrow> r
           | None \<Rightarrow>
               (case sourceConfiguration configStrategyLabel of
                  Inl err \<Rightarrow> (Some (Wrap err ''error loading labels''), [])
                | Inr configurations \<Rightarrow>
                    (case runAsCommand_label runProxy opts_source configurations of
                       Some r \<Rightarrow> r
                     | None \<Rightarrow> (None, [])))))"

section \<open>The script (cmd/backup/script.go)\<close>

subsection \<open>Resolving the archive file name\<close>

text \<open>
  Lines 81 to 101 of \<^verbatim>\<open>init\<close>. The library functions are parameters, collected in one
  record: \<^verbatim>\<open>path.Join\<close>, \<^verbatim>\<open>template.New("extension").Parse\<close>, the template's
  \<^verbatim>\<open>Execute\<close> (given the map of template variables, returning the text written to the
  buffer), \<^verbatim>\<open>os.ExpandEnv\<close> and \<^verbatim>\<open>timeutil.Strftime\<close>. Time is an integer.
\<close>

record BackupConfig =
  Filename :: string
  Compression :: string
  FilenameExpand :: bool
  LatestSymlink :: string
  PruningPrefix :: string

record script =
  script_c :: BackupConfig
  script_file :: string
  StartTime :: int

record 'tmpl library =
  path_Join :: "string \<Rightarrow> string \<Rightarrow> string"
  template_Parse :: "string \<Rightarrow> error + 'tmpl"
  template_Execute :: "'tmpl \<Rightarrow> (string \<rightharpoonup> string) \<Rightarrow> error + string"
  ExpandEnv :: "string \<Rightarrow> string"
  Strftime :: "int \<Rightarrow> string \<Rightarrow> string"

definition init_file :: "'tmpl library \<Rightarrow> script \<Rightarrow> error + script" where
  "init_file lib s =
     (let s1 = s\<lparr>script_file := path_Join lib ''/tmp'' (Filename (script_c s))\<rparr>
      in case template_Parse lib (script_file s1) of
           Inl tErr \<Rightarrow> Inl (Wrap tErr ''unable to parse backup file extension template'')
         | Inr tmplFileName \<Rightarrow>
             (case template_Execute lib tmplFileName
                     [''Extension'' \<mapsto> ''tar.'' @ Compression (script_c s1)] of
                Inl tErr \<Rightarrow> Inl (Wrap tErr ''error executing backup file extension template'')
              | Inr bf \<Rightarrow>
                  let s2 = s1\<lparr>script_file := bf\<rparr>;
                      s3 = (if FilenameExpand (script_c s2) then
                              s2\<lparr>script_file := ExpandEnv lib (script_file s2),
                                 script_c := (script_c s2)
                                   \<lparr>LatestSymlink := ExpandEnv lib (LatestSymlink (script_c s2)),
                                    PruningPrefix := ExpandEnv lib (PruningPrefix (script_c s2))\<rparr>\<rparr>
                            else s2)
                  in Inr (s3\<lparr>script_file := Strftime lib (StartTime s3) (script_file s3)\<rparr>)))"

subsection \<open>The notification hooks\<close>

text \<open>
  Lines 202 to 238 of \<^verbatim>\<open>init\<close>: when a notification URL is configured, the sender is
  created and the templates are parsed, each of which can fail, and then the two hooks
  are registered. The result is the error, or the hooks registered in order. A hook's
  action takes the run's final error and returns its own error together with the
  notification calls it made. Parameters: the error of \<^verbatim>\<open>shoutrrr.CreateSender\<close>, the
  error of parsing the default templates, the error of parsing the user's templates
  (\<open>None\<close> when their directory does not exist), and what \<^verbatim>\<open>notifyFailure\<close> and
  \<^verbatim>\<open>notifySuccess\<close> return.
\<close>

datatype hookLevel = hookLevelPlumbing | hookLevelError | hookLevelInfo

datatype notify_call = NotifyFailure error | NotifySuccess

record hook =
  level :: hookLevel
  action :: "error option \<Rightarrow> error option \<times> notify_call list"

definition error_hook ::
  "(error \<Rightarrow> error option) \<Rightarrow> error option \<Rightarrow> error option \<times> notify_call list"
where
  "error_hook notifyFailure err =
     (case err of None \<Rightarrow> (None, []) | Some e \<Rightarrow> (notifyFailure e, [NotifyFailure e]))"

definition info_hook :: "error option \<Rightarrow> error option \<Rightarrow> error option \<times> notify_call list" where
  "info_hook notifySuccess err =
     (case err of Some e \<Rightarrow> (None, []) | None \<Rightarrow> (notifySuccess, [NotifySuccess]))"

definition init_notification_hooks ::
  "(string list \<Rightarrow> error option) \<Rightarrow> error option \<Rightarrow> error option option
    \<Rightarrow> (error \<Rightarrow> error option) \<Rightarrow> error option \<Rightarrow> string list \<Rightarrow> error + hook list"
where
  "init_notification_hooks CreateSender parseDefault parseUserDefined
       notifyFailure notifySuccess NotificationURLs =
     (if length NotificationURLs > 0 then
        (case CreateSender NotificationURLs of
           Some senderErr \<Rightarrow> Inl (Wrap senderErr ''error creating sender'')
         | None \<Rightarrow>
             (case parseDefault of
                Some err \<Rightarrow> Inl (Wrap err ''unable to parse default notifications templates'')
              | None \<Rightarrow>
                  (case parseUserDefined of
                     Some (Some err) \<Rightarrow>
                       Inl (Wrap err ''unable to parse user defined notifications templates'')
                   | _ \<Rightarrow>
                       Inr [\<lparr>level = hookLevelError, action = error_hook notifyFailure\<rparr>,
                            \<lparr>level = hookLevelInfo, action = info_hook notifySuccess\<rparr>])))
      else Inr [])"

text \<open>
  The notification calls made when the hooks \<open>hs\<close> are invoked in order with the final
  error of a run. Which hooks a run invokes is decided outside \<^verbatim>\<open>init\<close>.
\<close>

definition fired :: "hook list \<Rightarrow> error option \<Rightarrow> notify_call list" where
  "fired hs err = concat (map (\<lambda>h. snd (action h err)) hs)"

section \<open>Proofs\<close>

subsection \<open>Decoder boundaries\<close>

lemma Atoi_0: "Atoi ''0'' = Some 0"
  by (simp add: Atoi_def is_digit_def)

lemma Atoi_1: "Atoi ''1'' = Some 1"
  by (simp add: Atoi_def is_digit_def)

lemma Atoi_minus_1: "Atoi ''-1'' = Some (- 1)"
  by (simp add: Atoi_def is_digit_def)

text \<open>
  C6. \<^verbatim>\<open>WholeNumber.Decode\<close> accepts "0" (storing 0) and rejects "-1";
  \<^verbatim>\<open>NaturalNumber.Decode\<close> rejects "0" and "-1" and accepts "1" (storing 1);
  \<^verbatim>\<open>CompressionType.Decode\<close> returns no error exactly for the strings "gz" and "zst",
  which it stores, and its decoding error exactly for every other string.
\<close>

theorem decoder_boundaries:
  "WholeNumber_Decode n ''0'' = (None, 0)
   \<and> WholeNumber_Decode n ''-1'' = (Some (NotWholeError (- 1)), n)
   \<and> NaturalNumber_Decode n ''0'' = (Some (NotNaturalError 0), n)
   \<and> NaturalNumber_Decode n ''-1'' = (Some (NotNaturalError (- 1)), n)
   \<and> NaturalNumber_Decode n ''1'' = (None, 1)
   \<and> (fst (CompressionType_Decode c v) = None) = (v = ''gz'' \<or> v = ''zst'')
   \<and> CompressionType_Decode c ''gz'' = (None, ''gz'')
   \<and> CompressionType_Decode c ''zst'' = (None, ''zst'')
   \<and> (fst (CompressionType_Decode c v) = Some (DecodeCompressionError v))
       = (v \<noteq> ''gz'' \<and> v \<noteq> ''zst'')"
  by (simp add: WholeNumber_Decode_def NaturalNumber_Decode_def CompressionType_Decode_def
      Atoi_0 Atoi_1 Atoi_minus_1)

theorem decoder_boundaries_witness:
  "WholeNumber_Decode 7 ''0'' = (None, 0)
   \<and> WholeNumber_Decode 7 ''-1'' = (Some (NotWholeError (- 1)), 7)
   \<and> NaturalNumber_Decode 7 ''0'' = (Some (NotNaturalError 0), 7)
   \<and> NaturalNumber_Decode 7 ''1'' = (None, 1)
   \<and> fst (CompressionType_Decode ''gz'' ''bz2'') = Some (DecodeCompressionError ''bz2'')"
  using decoder_boundaries [of 7 "''gz''" "''bz2''"] by simp

subsection \<open>The compatibility layer\<close>

lemma prefixed_name:
  assumes "prefix ''FILE__OFFEN_'' (env_key evr)"
  obtains r where "env_key evr = ''FILE__OFFEN_'' @ r" and "target evr = ''OFFEN_'' @ r"
proof -
  from assms obtain r where r: "env_key evr = ''FILE__OFFEN_'' @ r"
    by (auto simp: prefix_def)
  then have "target evr = ''OFFEN_'' @ r"
    by (simp add: target_def TrimPrefix_def)
  with r show thesis by (rule that)
qed

lemma env_key_no_eq: "CHR ''='' \<notin> set (env_key evr)"
  by (auto simp: env_key_def Cut_def dest: set_takeWhileD)

lemma env_key_no_NUL: "NUL \<notin> set evr \<Longrightarrow> NUL \<notin> set (env_key evr)"
  by (auto simp: env_key_def Cut_def dest: set_takeWhileD)

lemma env_val_no_NUL: "NUL \<notin> set evr \<Longrightarrow> NUL \<notin> set (env_val evr)"
  by (auto simp: env_val_def Cut_def dest!: in_set_dropD set_dropWhileD)

lemma Cut_key_val: "Cut evr = (env_key evr, env_val evr)"
  by (simp add: env_key_def env_val_def)

lemma key_target_distinct:
  assumes "prefix ''FILE__OFFEN_'' (env_key a)" and "prefix ''FILE__OFFEN_'' (env_key b)"
  shows "env_key a \<noteq> target b" and "(target a = target b) = (env_key a = env_key b)"
proof -
  from assms(1) obtain r where a: "env_key a = ''FILE__OFFEN_'' @ r" "target a = ''OFFEN_'' @ r"
    by (rule prefixed_name)
  from assms(2) obtain s where b: "env_key b = ''FILE__OFFEN_'' @ s" "target b = ''OFFEN_'' @ s"
    by (rule prefixed_name)
  show "env_key a \<noteq> target b" by (simp add: a b)
  show "(target a = target b) = (env_key a = env_key b)" by (simp add: a b)
qed

lemma target_valid:
  assumes "prefix ''FILE__OFFEN_'' (env_key evr)" and "NUL \<notin> set evr"
  shows "target evr \<noteq> []" and "CHR ''='' \<notin> set (target evr)" and "NUL \<notin> set (target evr)"
proof -
  from assms(1) obtain r where a: "env_key evr = ''FILE__OFFEN_'' @ r" "target evr = ''OFFEN_'' @ r"
    by (rule prefixed_name)
  show "target evr \<noteq> []" by (simp add: a)
  from env_key_no_eq [of evr] show "CHR ''='' \<notin> set (target evr)" by (simp add: a)
  from env_key_no_NUL [OF assms(2)] show "NUL \<notin> set (target evr)" by (simp add: a NUL_def)
qed

lemma Setenv_frame:
  "a \<noteq> k \<Longrightarrow> Setenv a v (env(k := x)) = map_option (\<lambda>e. e(k := x)) (Setenv a v env)"
  by (simp add: Setenv_def fun_upd_twist)

lemma Unsetenv_frame:
  "a \<noteq> k \<Longrightarrow> Unsetenv a (env(k := x)) = map_option (\<lambda>e. e(k := x)) (Unsetenv a env)"
  by (simp add: Unsetenv_def fun_upd_twist)

lemma unset_frame:
  "k \<notin> key ` set lks \<Longrightarrow> unset lks env = (r, env') \<Longrightarrow>
   unset lks (env(k := x)) = (r, env'(k := x))"
proof (induction lks arbitrary: env)
  case Nil
  then show ?case by simp
next
  case (Cons l lks)
  then have k: "key l \<noteq> k" and rest: "k \<notin> key ` set lks" by auto
  show "unset (l # lks) (env(k := x)) = (r, env'(k := x))"
  proof (cases "ok l")
    case True
    show ?thesis
    proof (cases "Setenv (key l) (val l) env")
      case None
      with True Cons.prems(2) show ?thesis
        by (simp add: Setenv_frame [OF k])
    next
      case (Some e)
      with True Cons.prems(2) have "unset lks e = (r, env')" by simp
      then have "unset lks (e(k := x)) = (r, env'(k := x))"
        by (rule Cons.IH [OF rest])
      with True Some show ?thesis
        by (simp add: Setenv_frame [OF k])
    qed
  next
    case False
    show ?thesis
    proof (cases "Unsetenv (key l) env")
      case None
      with False Cons.prems(2) show ?thesis
        by (simp add: Unsetenv_frame [OF k])
    next
      case (Some e)
      with False Cons.prems(2) have "unset lks e = (r, env')" by simp
      then have "unset lks (e(k := x)) = (r, env'(k := x))"
        by (rule Cons.IH [OF rest])
      with False Some show ?thesis
        by (simp add: Unsetenv_frame [OF k])
    qed
  qed
qed

lemma unset_append:
  "unset (xs @ ys) env =
     (case fst (unset xs env) of None \<Rightarrow> unset ys (snd (unset xs env)) | Some e \<Rightarrow> unset xs env)"
  by (induction xs arbitrary: env) (auto split: option.splits)

lemma snapshots_keys:
  "key ` set (concat (map snapshots vars)) = env_key ` set vars \<union> target ` set vars"
  by (induction vars) (auto simp: snapshots_def)

lemma prefixed_vars_Cons:
  assumes "prefixed_vars env (evr # vars)"
  shows "prefix ''FILE__OFFEN_'' (env_key evr)" and "NUL \<notin> set evr"
    and "env (env_key evr) = Some (env_val evr)"
    and "env_key evr \<notin> env_key ` set vars" and "env_key evr \<notin> target ` set vars"
    and "target evr \<notin> env_key ` set vars" and "target evr \<notin> target ` set vars"
    and "target evr \<noteq> env_key evr"
    and "prefixed_vars (env(env_key evr := x, target evr := y)) vars"
proof -
  from assms show p: "prefix ''FILE__OFFEN_'' (env_key evr)" and "NUL \<notin> set evr"
    and "env (env_key evr) = Some (env_val evr)"
    and d: "env_key evr \<notin> env_key ` set vars"
    by (auto simp: prefixed_vars_def)
  from assms have ps: "\<And>b. b \<in> set vars \<Longrightarrow> prefix ''FILE__OFFEN_'' (env_key b)"
    by (simp add: prefixed_vars_def)
  show k: "env_key evr \<notin> target ` set vars"
    using key_target_distinct(1) [OF p ps] by auto
  show t: "target evr \<notin> env_key ` set vars"
    using key_target_distinct(1) [OF ps p] by force
  show "target evr \<notin> target ` set vars"
    using key_target_distinct(2) [OF p ps] d by auto
  show "target evr \<noteq> env_key evr"
    using key_target_distinct(1) [OF p p] by simp
  have "(env(env_key evr := x, target evr := y)) (env_key b) = env (env_key b)"
    if "b \<in> set vars" for b
  proof -
    from that d have "env_key b \<noteq> env_key evr" by (metis imageI)
    moreover from that t have "env_key b \<noteq> target evr" by (metis imageI)
    ultimately show ?thesis by simp
  qed
  with assms show "prefixed_vars (env(env_key evr := x, target evr := y)) vars"
    by (simp add: prefixed_vars_def)
qed

lemma key_valid:
  assumes "prefix ''FILE__OFFEN_'' (env_key evr)" and "NUL \<notin> set evr"
  shows "Setenv (env_key evr) (env_val evr) e = Some (e(env_key evr \<mapsto> env_val evr))"
proof -
  from assms(1) have "env_key evr \<noteq> []" by auto
  with env_key_no_eq [of evr] env_key_no_NUL [OF assms(2)] env_val_no_NUL [OF assms(2)]
  show ?thesis by (simp add: Setenv_def)
qed

lemma Setenv_target:
  assumes "prefix ''FILE__OFFEN_'' (env_key evr)" and "NUL \<notin> set evr"
  shows "Setenv (target evr) contents e =
           (if NUL \<in> set contents then None else Some (e(target evr \<mapsto> contents)))"
  using target_valid [OF assms] by (simp add: Setenv_def)

lemma loop_Cons:
  assumes "prefixed_vars env (evr # vars)"
  shows "mapEnvironmentFiles_loop fs (evr # vars) lookups env =
    (if env (target evr) \<noteq> None then
       (Inl (FileConflictError (target evr) (env_key evr)), env(env_key evr := None))
     else
       (case fs (env_val evr) of
          None \<Rightarrow> (Inl (ReadFileError (env_val evr)), env(env_key evr := None))
        | Some contents \<Rightarrow>
            if NUL \<in> set contents then
              (Inl (SetenvError (target evr)), env(env_key evr := None))
            else
              mapEnvironmentFiles_loop fs vars (lookups @ snapshots evr)
                (env(env_key evr := None, target evr \<mapsto> contents))))"
proof -
  note h = prefixed_vars_Cons [OF assms]
  show ?thesis
    by (simp add: Cut_key_val Unsetenv_def LookupEnv_def ReadFile_def h(8) Let_def
        Setenv_target [OF h(1) h(2)] snapshots_def
        target_def [symmetric] split: option.splits)
qed

lemma loop_success:
  assumes "prefixed_vars env vars"
    and "mapEnvironmentFiles_loop fs vars lookups env = (Inr lks, env')"
  shows "lks = lookups @ concat (map snapshots vars)
    \<and> unset (concat (map snapshots vars)) env' = (None, env)
    \<and> (\<forall>b \<in> set vars. env (target b) = None \<and> env' (env_key b) = None
          \<and> env' (target b) = fs (env_val b)
          \<and> (\<exists>c. fs (env_val b) = Some c \<and> NUL \<notin> set c))
    \<and> (\<forall>x. x \<notin> env_key ` set vars \<union> target ` set vars \<longrightarrow> env' x = env x)"
  using assms
proof (induction vars arbitrary: lookups env)
  case Nil
  then show ?case by simp
next
  case (Cons evr vars)
  note h = prefixed_vars_Cons [OF Cons.prems(1)]
  let ?k = "env_key evr" and ?t = "target evr" and ?v = "env_val evr"
  let ?S = "concat (map snapshots vars)"
  from Cons.prems(2) [unfolded loop_Cons [OF Cons.prems(1)]]
  obtain c where tn: "env ?t = None" and c: "fs ?v = Some c" "NUL \<notin> set c"
    and rest: "mapEnvironmentFiles_loop fs vars (lookups @ snapshots evr)
                 (env(?k := None, ?t \<mapsto> c)) = (Inr lks, env')"
    by (auto split: if_splits option.splits)
  let ?env2 = "env(?k := None, ?t \<mapsto> c)"
  have pv: "prefixed_vars ?env2 vars" by (rule h(9))
  have IH: "lks = (lookups @ snapshots evr) @ ?S
    \<and> unset ?S env' = (None, ?env2)
    \<and> (\<forall>b \<in> set vars. ?env2 (target b) = None \<and> env' (env_key b) = None
          \<and> env' (target b) = fs (env_val b)
          \<and> (\<exists>c. fs (env_val b) = Some c \<and> NUL \<notin> set c))
    \<and> (\<forall>x. x \<notin> env_key ` set vars \<union> target ` set vars \<longrightarrow> env' x = ?env2 x)"
    by (rule Cons.IH [OF pv rest])
  from IH have IH1: "lks = (lookups @ snapshots evr) @ ?S"
    and IH2: "unset ?S env' = (None, ?env2)"
    and IH3: "\<And>b. b \<in> set vars \<Longrightarrow> ?env2 (target b) = None \<and> env' (env_key b) = None
          \<and> env' (target b) = fs (env_val b)
          \<and> (\<exists>c. fs (env_val b) = Some c \<and> NUL \<notin> set c)"
    and IH4: "\<And>x. x \<notin> env_key ` set vars \<union> target ` set vars \<Longrightarrow> env' x = ?env2 x"
    by blast+
  have kS: "?k \<notin> key ` set ?S" and tS: "?t \<notin> key ` set ?S"
    unfolding snapshots_keys using h(4-7) by blast+
  have c1: "lks = lookups @ concat (map snapshots (evr # vars))"
    using IH1 by simp
  have "unset ?S (env'(?k \<mapsto> ?v)) = (None, ?env2(?k \<mapsto> ?v))"
    using kS IH2 by (rule unset_frame)
  then have "unset ?S (env'(?k \<mapsto> ?v, ?t := None)) = (None, ?env2(?k \<mapsto> ?v, ?t := None))"
    by (rule unset_frame [OF tS])
  moreover have "?env2(?k \<mapsto> ?v, ?t := None) = env"
    by (rule ext) (simp add: h(3) tn)
  moreover have "unset (concat (map snapshots (evr # vars))) env'
      = unset ?S (env'(?k \<mapsto> ?v, ?t := None))"
    by (simp add: snapshots_def key_valid [OF h(1) h(2)] Unsetenv_def)
  ultimately have c2: "unset (concat (map snapshots (evr # vars))) env' = (None, env)"
    by simp
  have "env' ?k = ?env2 ?k" using h(4) h(5) by (intro IH4) blast
  then have ek: "env' ?k = None" using h(8) by simp
  have "env' ?t = ?env2 ?t" using h(6) h(7) by (intro IH4) blast
  then have et: "env' ?t = Some c" by simp
  have c3: "env (target b) = None \<and> env' (env_key b) = None
          \<and> env' (target b) = fs (env_val b)
          \<and> (\<exists>c. fs (env_val b) = Some c \<and> NUL \<notin> set c)" if "b \<in> set (evr # vars)" for b
  proof (cases "b = evr")
    case True
    with tn c ek et show ?thesis by simp
  next
    case False
    with that have b: "b \<in> set vars" by simp
    then have "target b \<noteq> ?k" "target b \<noteq> ?t"
      using h(5) h(7) by (metis imageI)+
    with IH3 [OF b] show ?thesis by simp
  qed
  have c4: "env' x = env x" if "x \<notin> env_key ` set (evr # vars) \<union> target ` set (evr # vars)" for x
  proof -
    from that have "x \<notin> env_key ` set vars \<union> target ` set vars" "x \<noteq> ?k" "x \<noteq> ?t"
      by auto
    with IH4 [of x] show ?thesis by simp
  qed
  from c1 c2 c3 c4 show ?case by blast
qed

lemma loop_error:
  assumes "prefixed_vars env vars"
    and "mapEnvironmentFiles_loop fs vars lookups env = (Inl e, env')"
  shows "\<exists>b \<in> set vars. env' (env_key b) = None
    \<and> (e = FileConflictError (target b) (env_key b) \<and> env (target b) \<noteq> None
       \<or> e = ReadFileError (env_val b) \<and> fs (env_val b) = None
       \<or> e = SetenvError (target b) \<and> (\<exists>c. fs (env_val b) = Some c \<and> NUL \<in> set c))"
  using assms
proof (induction vars arbitrary: lookups env)
  case Nil
  then show ?case by simp
next
  case (Cons evr vars)
  note h = prefixed_vars_Cons [OF Cons.prems(1)]
  let ?k = "env_key evr" and ?t = "target evr" and ?v = "env_val evr"
  let ?bad = "\<lambda>env b. env' (env_key b) = None
    \<and> (e = FileConflictError (target b) (env_key b) \<and> env (target b) \<noteq> None
       \<or> e = ReadFileError (env_val b) \<and> fs (env_val b) = None
       \<or> e = SetenvError (target b) \<and> (\<exists>c. fs (env_val b) = Some c \<and> NUL \<in> set c))"
  note eq = Cons.prems(2) [unfolded loop_Cons [OF Cons.prems(1)]]
  show "\<exists>b \<in> set (evr # vars). ?bad env b"
  proof (cases "env ?t \<noteq> None \<or> fs ?v = None \<or> (\<exists>c. fs ?v = Some c \<and> NUL \<in> set c)")
    case True
    with eq have "?bad env evr"
      by (auto split: if_splits option.splits)
    then show ?thesis by simp
  next
    case False
    then obtain c where tn: "env ?t = None" and c: "fs ?v = Some c" "NUL \<notin> set c"
      by auto
    let ?env2 = "env(?k := None, ?t \<mapsto> c)"
    from eq tn c have rest: "mapEnvironmentFiles_loop fs vars (lookups @ snapshots evr) ?env2
        = (Inl e, env')"
      by simp
    have pv: "prefixed_vars ?env2 vars" by (rule h(9))
    have "\<exists>b \<in> set vars. ?bad ?env2 b"
      by (rule Cons.IH [OF pv rest])
    then obtain b where b: "b \<in> set vars" and bad: "?bad ?env2 b" by blast
    from b have "target b \<noteq> ?k" "target b \<noteq> ?t"
      using h(5) h(7) by (metis imageI)+
    with bad have "?bad env b" by simp
    with b show ?thesis by auto
  qed
qed

lemma mapEnvironmentFiles_cases:
  obtains (error) e env' where "mapEnvironmentFiles vars fs env = (Inl e, env')"
  | (success) lks env' where "mapEnvironmentFiles vars fs env = (Inr lks, env')"
  by (cases "mapEnvironmentFiles vars fs env"; cases "fst (mapEnvironmentFiles vars fs env)") auto

lemma mapping_names:
  "distinct (map from_name mapping)" "distinct (map to_name mapping)"
  "set (map from_name mapping) \<inter> set (map to_name mapping) = {}"
  by (simp_all add: mapping_def)

lemma legacy_Cons:
  "mapLegacyVariables_loop (m # ms) lookups env =
    (case env (from_name m) of
       None \<Rightarrow>
         mapLegacyVariables_loop ms (lookups @ [\<lparr>ok = False, key = from_name m, val = ''''\<rparr>]) env
     | Some legacy \<Rightarrow>
         if (env(from_name m := None)) (to_name m) \<noteq> None then
           (Inl (LegacyConflictError (to_name m) (from_name m)), env(from_name m := None))
         else
           mapLegacyVariables_loop ms
             (lookups @ [\<lparr>ok = True, key = from_name m, val = legacy\<rparr>,
                         \<lparr>ok = False, key = from_name m, val = ''''\<rparr>])
             (case Setenv (to_name m) legacy (env(from_name m := None)) of
                None \<Rightarrow> env(from_name m := None) | Some e \<Rightarrow> e))"
  by (simp add: LookupEnv_def Unsetenv_def Let_def split: option.splits)

lemma Setenv_ignored:
  "(case Setenv k v e of None \<Rightarrow> e | Some e' \<Rightarrow> e') x = (if x = k then (case Setenv k v e of None \<Rightarrow> e k | Some e' \<Rightarrow> Some v) else e x)"
  by (simp add: Setenv_def)

lemma legacy_conflict:
  assumes "distinct (map from_name ms)" and "distinct (map to_name ms)"
    and "set (map from_name ms) \<inter> set (map to_name ms) = {}"
    and "\<exists>m \<in> set ms. env (from_name m) \<noteq> None \<and> env (to_name m) \<noteq> None"
  shows "\<exists>m \<in> set ms. env (from_name m) \<noteq> None \<and> env (to_name m) \<noteq> None
    \<and> fst (mapLegacyVariables_loop ms lookups env)
        = Inl (LegacyConflictError (to_name m) (from_name m))
    \<and> snd (mapLegacyVariables_loop ms lookups env) (from_name m) = None"
  using assms
proof (induction ms arbitrary: lookups env)
  case Nil
  then show ?case by simp
next
  case (Cons m ms)
  let ?f = "from_name m" and ?t = "to_name m"
  let ?P = "\<lambda>ms lookups env1 env m. env (from_name m) \<noteq> None \<and> env (to_name m) \<noteq> None
    \<and> fst (mapLegacyVariables_loop ms lookups env1)
        = Inl (LegacyConflictError (to_name m) (from_name m))
    \<and> snd (mapLegacyVariables_loop ms lookups env1) (from_name m) = None"
  from Cons.prems(1-3) have d: "distinct (map from_name ms)" "distinct (map to_name ms)"
    "set (map from_name ms) \<inter> set (map to_name ms) = {}"
    by auto
  from Cons.prems(1-3) have ft: "?f \<noteq> ?t"
    and n: "?f \<notin> from_name ` set ms" "?t \<notin> to_name ` set ms"
      "?t \<notin> from_name ` set ms" "?f \<notin> to_name ` set ms"
    by auto
  have f': "from_name m' \<noteq> ?f \<and> from_name m' \<noteq> ?t \<and> to_name m' \<noteq> ?f \<and> to_name m' \<noteq> ?t"
    if "m' \<in> set ms" for m'
    using that n by (metis imageI)
  show "\<exists>m' \<in> set (m # ms). ?P (m # ms) lookups env env m'"
  proof (cases "env ?f")
    case None
    with Cons.prems(4) have ex: "\<exists>m \<in> set ms. env (from_name m) \<noteq> None \<and> env (to_name m) \<noteq> None"
      by auto
    have "\<exists>m' \<in> set ms. ?P ms (lookups @ [\<lparr>ok = False, key = ?f, val = ''''\<rparr>]) env env m'"
      by (rule Cons.IH [OF d ex])
    with None show ?thesis by (auto simp: legacy_Cons simp del: mapLegacyVariables_loop.simps)
  next
    case (Some legacy)
    show ?thesis
    proof (cases "env ?t")
      case (Some new)
      with \<open>env ?f = Some legacy\<close> ft have "?P (m # ms) lookups env env m"
        by (simp add: legacy_Cons del: mapLegacyVariables_loop.simps)
      then show ?thesis by simp
    next
      case None
      let ?env2 = "case Setenv ?t legacy (env(?f := None)) of
                     None \<Rightarrow> env(?f := None) | Some e \<Rightarrow> e"
      let ?l2 = "lookups @ [\<lparr>ok = True, key = ?f, val = legacy\<rparr>,
                         \<lparr>ok = False, key = ?f, val = ''''\<rparr>]"
      have same: "?env2 (from_name m') = env (from_name m') \<and> ?env2 (to_name m') = env (to_name m')"
        if "m' \<in> set ms" for m'
        using f' [OF that] by (simp add: Setenv_ignored)
      from None Cons.prems(4)
      have "\<exists>m \<in> set ms. env (from_name m) \<noteq> None \<and> env (to_name m) \<noteq> None"
        by auto
      with same have ex: "\<exists>m \<in> set ms. ?env2 (from_name m) \<noteq> None \<and> ?env2 (to_name m) \<noteq> None"
        by auto
      have "\<exists>m' \<in> set ms. ?P ms ?l2 ?env2 ?env2 m'"
        by (rule Cons.IH [OF d ex])
      then obtain m' where m': "m' \<in> set ms" and P: "?P ms ?l2 ?env2 ?env2 m'"
        by blast
      from P same [OF m'] have "?P ms ?l2 ?env2 env m'" by simp
      moreover have "mapLegacyVariables_loop (m # ms) lookups env
          = mapLegacyVariables_loop ms ?l2 ?env2"
        using None \<open>env ?f = Some legacy\<close> ft
        by (simp add: legacy_Cons del: mapLegacyVariables_loop.simps)
      ultimately have "?P (m # ms) lookups env env m'" by simp
      with m' show ?thesis by auto
    qed
  qed
qed

lemma map_neqI: "f x \<noteq> g x \<Longrightarrow> f \<noteq> g"
  by auto

text \<open>
  The sibling path keeps the round trip: after a successful \<^verbatim>\<open>mapEnvironmentFiles\<close> on
  entries of the environment there are exactly two snapshots per entry, the second
  under the target variable's name, and invoking the returned closure gives no error
  and leaves exactly the environment from before the call.
\<close>

lemma mapEnvironmentFiles_rollback_restores:
  assumes "prefixed_vars env vars"
    and "mapEnvironmentFiles vars fs env = (Inr lookups, env')"
  shows "lookups = concat (map snapshots vars)"
    and "invoke_rollback (mapEnvironmentFiles vars fs env) = Some (None, env)"
proof -
  from assms(2) have "mapEnvironmentFiles_loop fs vars [] env = (Inr lookups, env')"
    by (simp add: mapEnvironmentFiles_def)
  with assms(1) have s: "lookups = [] @ concat (map snapshots vars)
      \<and> unset (concat (map snapshots vars)) env' = (None, env)"
    using loop_success [of env vars fs "[]" lookups env'] by blast
  then show "lookups = concat (map snapshots vars)" by simp
  with assms(2) s show "invoke_rollback (mapEnvironmentFiles vars fs env) = Some (None, env)"
    by (simp add: invoke_rollback_def)
qed

lemma example_vars:
  "prefixed_vars [''FILE__OFFEN_BACKUP_FILENAME'' \<mapsto> ''/f'']
     [''FILE__OFFEN_BACKUP_FILENAME=/f'']"
  by (simp add: prefixed_vars_def env_key_def env_val_def Cut_def NUL_def)

lemma example_files:
  "mapEnvironmentFiles [''FILE__OFFEN_BACKUP_FILENAME=/f''] [''/f'' \<mapsto> ''b.tar'']
     [''FILE__OFFEN_BACKUP_FILENAME'' \<mapsto> ''/f'']
   = (Inr [\<lparr>ok = True, key = ''FILE__OFFEN_BACKUP_FILENAME'', val = ''/f''\<rparr>,
           \<lparr>ok = False, key = ''OFFEN_BACKUP_FILENAME'', val = ''''\<rparr>],
      [''OFFEN_BACKUP_FILENAME'' \<mapsto> ''b.tar''])"
  by (simp add: mapEnvironmentFiles_def Cut_def Unsetenv_def LookupEnv_def TrimPrefix_def
      ReadFile_def Setenv_def NUL_def Let_def)

text \<open>
  C1 is what the closure is for (the comment on \<^verbatim>\<open>ApplyEnv\<close>: a function that reverts
  all values that have been set to their previous state), and \<^verbatim>\<open>mapLegacyVariables\<close>
  does not keep it. With only \<^verbatim>\<open>AWS_ACCESS_KEY_ID\<close> set, the call succeeds and moves the
  value to \<^verbatim>\<open>OFFEN_STORAGE_AWS_ACCESSKEYID\<close>; the snapshot of the canonical variable is
  recorded under the legacy name; the closure returns no error, sets the legacy
  variable back and at once unsets it again, and never touches the canonical one. The
  environment after the rollback holds the canonical variable and not the legacy one,
  which is not the environment from before the call.
\<close>

theorem mapLegacyVariables_rollback_does_not_restore:
  "mapLegacyVariables [''AWS_ACCESS_KEY_ID'' \<mapsto> ''k'']
   = (Inr [\<lparr>ok = True, key = ''AWS_ACCESS_KEY_ID'', val = ''k''\<rparr>,
           \<lparr>ok = False, key = ''AWS_ACCESS_KEY_ID'', val = ''''\<rparr>,
           \<lparr>ok = False, key = ''AWS_SECRET_ACCESS_KEY'', val = ''''\<rparr>,
           \<lparr>ok = False, key = ''AWS_SECRET_ACCESS_KEY_FILE'', val = ''''\<rparr>,
           \<lparr>ok = False, key = ''AWS_ENDPOINT'', val = ''''\<rparr>,
           \<lparr>ok = False, key = ''AWS_ENDPOINT_PROTO'', val = ''''\<rparr>,
           \<lparr>ok = False, key = ''AWS_S3_BUCKET_NAME'', val = ''''\<rparr>,
           \<lparr>ok = False, key = ''BACKUP_FILENAME_EXPAND'', val = ''''\<rparr>,
           \<lparr>ok = False, key = ''BACKUP_FILENAME'', val = ''''\<rparr>,
           \<lparr>ok = False, key = ''BACKUP_CRON_EXPRESSION'', val = ''''\<rparr>,
           \<lparr>ok = False, key = ''BACKUP_RETENTION_DAYS'', val = ''''\<rparr>,
           \<lparr>ok = False, key = ''BACKUP_PRUNING_LEEWAY'', val = ''''\<rparr>,
           \<lparr>ok = False, key = ''BACKUP_PRUNING_PREFIX'', val = ''''\<rparr>],
      [''OFFEN_STORAGE_AWS_ACCESSKEYID'' \<mapsto> ''k''])
   \<and> invoke_rollback (mapLegacyVariables [''AWS_ACCESS_KEY_ID'' \<mapsto> ''k''])
     = Some (None, [''OFFEN_STORAGE_AWS_ACCESSKEYID'' \<mapsto> ''k''])
   \<and> [''OFFEN_STORAGE_AWS_ACCESSKEYID'' \<mapsto> ''k''] \<noteq> [''AWS_ACCESS_KEY_ID'' \<mapsto> ''k'']"
proof -
  have "[''OFFEN_STORAGE_AWS_ACCESSKEYID'' \<mapsto> ''k''] \<noteq> [''AWS_ACCESS_KEY_ID'' \<mapsto> ''k'']"
    by (rule map_neqI [of _ "''AWS_ACCESS_KEY_ID''"]) simp
  then show ?thesis
    by (simp add: mapLegacyVariables_def mapping_def legacy_Cons Setenv_def Unsetenv_def NUL_def
        invoke_rollback_def del: mapLegacyVariables_loop.simps(2))
qed

text \<open>
  C7 (amended). For the entries \<^verbatim>\<open>mapEnvironmentFiles\<close> works through (variables of the
  environment whose names start with \<^verbatim>\<open>FILE__OFFEN_\<close>), the call returns an error exactly
  when for some entry the target variable is already set, or the file named by the
  value cannot be read, or the file's content holds a NUL byte, which makes setting the
  target variable fail. When it returns no error, every indirection variable is unset,
  every target variable holds the content of the file named by the indirection
  variable's value, and every other variable is as it was.
\<close>

theorem mapEnvironmentFiles_result:
  assumes "prefixed_vars env vars"
  shows "(\<exists>e. fst (mapEnvironmentFiles vars fs env) = Inl e)
       = (\<exists>evr \<in> set vars. env (target evr) \<noteq> None \<or> fs (env_val evr) = None
            \<or> (\<exists>contents. fs (env_val evr) = Some contents \<and> NUL \<in> set contents))
    \<and> (\<forall>lookups env'. mapEnvironmentFiles vars fs env = (Inr lookups, env') \<longrightarrow>
          (\<forall>evr \<in> set vars. env' (env_key evr) = None \<and> env' (target evr) = fs (env_val evr))
          \<and> (\<forall>x. x \<notin> env_key ` set vars \<union> target ` set vars \<longrightarrow> env' x = env x))"
proof (cases rule: mapEnvironmentFiles_cases [of vars fs env])
  case (error e env')
  then have "mapEnvironmentFiles_loop fs vars [] env = (Inl e, env')"
    by (simp add: mapEnvironmentFiles_def)
  from loop_error [OF assms this]
  have "\<exists>evr \<in> set vars. env (target evr) \<noteq> None \<or> fs (env_val evr) = None
            \<or> (\<exists>contents. fs (env_val evr) = Some contents \<and> NUL \<in> set contents)"
    by blast
  with error show ?thesis by simp
next
  case (success lks env')
  then have "mapEnvironmentFiles_loop fs vars [] env = (Inr lks, env')"
    by (simp add: mapEnvironmentFiles_def)
  from loop_success [OF assms this]
  have ok: "\<forall>b \<in> set vars. env (target b) = None \<and> env' (env_key b) = None
          \<and> env' (target b) = fs (env_val b)
          \<and> (\<exists>c. fs (env_val b) = Some c \<and> NUL \<notin> set c)"
    and frame: "\<forall>x. x \<notin> env_key ` set vars \<union> target ` set vars \<longrightarrow> env' x = env x"
    by blast+
  from ok have "\<not> (\<exists>evr \<in> set vars. env (target evr) \<noteq> None \<or> fs (env_val evr) = None
            \<or> (\<exists>contents. fs (env_val evr) = Some contents \<and> NUL \<in> set contents))"
    by fastforce
  with success ok frame show ?thesis by simp
qed

theorem mapEnvironmentFiles_result_witness:
  "prefixed_vars [''FILE__OFFEN_BACKUP_FILENAME'' \<mapsto> ''/f''] [''FILE__OFFEN_BACKUP_FILENAME=/f'']
   \<and> mapEnvironmentFiles [''FILE__OFFEN_BACKUP_FILENAME=/f''] [''/f'' \<mapsto> ''b.tar'']
        [''FILE__OFFEN_BACKUP_FILENAME'' \<mapsto> ''/f'']
      = (Inr [\<lparr>ok = True, key = ''FILE__OFFEN_BACKUP_FILENAME'', val = ''/f''\<rparr>,
              \<lparr>ok = False, key = ''OFFEN_BACKUP_FILENAME'', val = ''''\<rparr>],
         [''OFFEN_BACKUP_FILENAME'' \<mapsto> ''b.tar''])
   \<and> \<not> (\<exists>evr \<in> set [''FILE__OFFEN_BACKUP_FILENAME=/f''].
          [''FILE__OFFEN_BACKUP_FILENAME'' \<mapsto> ''/f''] (target evr) \<noteq> None
          \<or> [''/f'' \<mapsto> ''b.tar''] (env_val evr) = None
          \<or> (\<exists>contents. [''/f'' \<mapsto> ''b.tar''] (env_val evr) = Some contents
                \<and> NUL \<in> set contents))"
  using mapEnvironmentFiles_result [OF example_vars, of "[''/f'' \<mapsto> ''b.tar'']"]
    example_vars example_files
  by simp

text \<open>
  C7 as stated fails: the file is read and the target variable is not set, yet the
  call returns the error of \<^verbatim>\<open>os.Setenv\<close>, because the content holds a NUL byte.
\<close>

theorem mapEnvironmentFiles_result_counterexample:
  "prefixed_vars [''FILE__OFFEN_BACKUP_FILENAME'' \<mapsto> ''/f''] [''FILE__OFFEN_BACKUP_FILENAME=/f'']
   \<and> [''FILE__OFFEN_BACKUP_FILENAME'' \<mapsto> ''/f''] ''OFFEN_BACKUP_FILENAME'' = None
   \<and> ReadFile [''/f'' \<mapsto> [CHR ''k'', NUL]] ''/f'' = Some [CHR ''k'', NUL]
   \<and> mapEnvironmentFiles [''FILE__OFFEN_BACKUP_FILENAME=/f''] [''/f'' \<mapsto> [CHR ''k'', NUL]]
        [''FILE__OFFEN_BACKUP_FILENAME'' \<mapsto> ''/f'']
      = (Inl (SetenvError ''OFFEN_BACKUP_FILENAME''), Map.empty)"
  by (simp add: example_vars mapEnvironmentFiles_def Cut_def Unsetenv_def LookupEnv_def
      TrimPrefix_def ReadFile_def Setenv_def Let_def)

text \<open>
  C2 (amended). If both variables of some legacy pair are set, \<^verbatim>\<open>mapLegacyVariables\<close>
  returns the conflict error of a pair with both variables set. If for some entry that
  \<^verbatim>\<open>mapEnvironmentFiles\<close> works through the target variable is set too, it returns an
  error, which is the conflict error of such an entry whenever every entry's file can
  be read and stored. In both cases no closure is returned and the environment is not
  put back: the legacy or indirection variable the error is about was set before the
  call and is unset after it.
\<close>

theorem conflict_error:
  "((\<exists>m \<in> set mapping. env (from_name m) \<noteq> None \<and> env (to_name m) \<noteq> None) \<longrightarrow>
      (\<exists>m \<in> set mapping. env (from_name m) \<noteq> None \<and> env (to_name m) \<noteq> None
         \<and> fst (mapLegacyVariables env) = Inl (LegacyConflictError (to_name m) (from_name m))
         \<and> snd (mapLegacyVariables env) (from_name m) = None))
   \<and> (prefixed_vars env vars \<and> (\<exists>evr \<in> set vars. env (target evr) \<noteq> None) \<longrightarrow>
      (\<exists>e. \<exists>evr \<in> set vars. fst (mapEnvironmentFiles vars fs env) = Inl e
         \<and> env (env_key evr) \<noteq> None
         \<and> snd (mapEnvironmentFiles vars fs env) (env_key evr) = None
         \<and> ((\<forall>b \<in> set vars. \<exists>contents. fs (env_val b) = Some contents \<and> NUL \<notin> set contents)
              \<longrightarrow> e = FileConflictError (target evr) (env_key evr)
                \<and> env (target evr) \<noteq> None)))"
proof (intro conjI impI)
  assume "\<exists>m \<in> set mapping. env (from_name m) \<noteq> None \<and> env (to_name m) \<noteq> None"
  from legacy_conflict [OF mapping_names this, of "[]"]
  show "\<exists>m \<in> set mapping. env (from_name m) \<noteq> None \<and> env (to_name m) \<noteq> None
         \<and> fst (mapLegacyVariables env) = Inl (LegacyConflictError (to_name m) (from_name m))
         \<and> snd (mapLegacyVariables env) (from_name m) = None"
    by (simp add: mapLegacyVariables_def)
next
  assume a: "prefixed_vars env vars \<and> (\<exists>evr \<in> set vars. env (target evr) \<noteq> None)"
  then have pv: "prefixed_vars env vars" by simp
  show "\<exists>e. \<exists>evr \<in> set vars. fst (mapEnvironmentFiles vars fs env) = Inl e
         \<and> env (env_key evr) \<noteq> None
         \<and> snd (mapEnvironmentFiles vars fs env) (env_key evr) = None
         \<and> ((\<forall>b \<in> set vars. \<exists>contents. fs (env_val b) = Some contents \<and> NUL \<notin> set contents)
              \<longrightarrow> e = FileConflictError (target evr) (env_key evr)
                \<and> env (target evr) \<noteq> None)"
  proof (cases rule: mapEnvironmentFiles_cases [of vars fs env])
    case (error e env')
    then have "mapEnvironmentFiles_loop fs vars [] env = (Inl e, env')"
      by (simp add: mapEnvironmentFiles_def)
    from loop_error [OF pv this] obtain b where b: "b \<in> set vars"
      and k: "env' (env_key b) = None"
      and kind: "e = FileConflictError (target b) (env_key b) \<and> env (target b) \<noteq> None
       \<or> e = ReadFileError (env_val b) \<and> fs (env_val b) = None
       \<or> e = SetenvError (target b) \<and> (\<exists>c. fs (env_val b) = Some c \<and> NUL \<in> set c)"
      by blast
    from pv b have "env (env_key b) \<noteq> None" by (simp add: prefixed_vars_def)
    moreover have "e = FileConflictError (target b) (env_key b) \<and> env (target b) \<noteq> None"
      if "\<forall>b \<in> set vars. \<exists>contents. fs (env_val b) = Some contents \<and> NUL \<notin> set contents"
      using that b kind by fastforce
    ultimately show ?thesis using error b k by auto
  next
    case (success lks env')
    then have "mapEnvironmentFiles_loop fs vars [] env = (Inr lks, env')"
      by (simp add: mapEnvironmentFiles_def)
    from loop_success [OF pv this] have "\<forall>b \<in> set vars. env (target b) = None" by blast
    with a have False by simp
    then show ?thesis ..
  qed
qed

lemma example_conflict_vars:
  "prefixed_vars
     [''FILE__OFFEN_BACKUP_FILENAME'' \<mapsto> ''/f'', ''OFFEN_BACKUP_FILENAME'' \<mapsto> ''b.tar'']
     [''FILE__OFFEN_BACKUP_FILENAME=/f'']"
  by (simp add: prefixed_vars_def env_key_def env_val_def Cut_def NUL_def)

theorem conflict_error_witness:
  "(\<exists>m \<in> set mapping.
      [''AWS_ACCESS_KEY_ID'' \<mapsto> ''a'', ''OFFEN_STORAGE_AWS_ACCESSKEYID'' \<mapsto> ''b'']
        (from_name m) \<noteq> None
      \<and> [''AWS_ACCESS_KEY_ID'' \<mapsto> ''a'', ''OFFEN_STORAGE_AWS_ACCESSKEYID'' \<mapsto> ''b'']
        (to_name m) \<noteq> None)
   \<and> (\<exists>m \<in> set mapping.
        fst (mapLegacyVariables
          [''AWS_ACCESS_KEY_ID'' \<mapsto> ''a'', ''OFFEN_STORAGE_AWS_ACCESSKEYID'' \<mapsto> ''b''])
        = Inl (LegacyConflictError (to_name m) (from_name m)))
   \<and> prefixed_vars
        [''FILE__OFFEN_BACKUP_FILENAME'' \<mapsto> ''/f'', ''OFFEN_BACKUP_FILENAME'' \<mapsto> ''b.tar'']
        [''FILE__OFFEN_BACKUP_FILENAME=/f'']
   \<and> (\<exists>evr \<in> set [''FILE__OFFEN_BACKUP_FILENAME=/f''].
        [''FILE__OFFEN_BACKUP_FILENAME'' \<mapsto> ''/f'', ''OFFEN_BACKUP_FILENAME'' \<mapsto> ''b.tar'']
          (target evr) \<noteq> None)
   \<and> (\<exists>e. fst (mapEnvironmentFiles [''FILE__OFFEN_BACKUP_FILENAME=/f''] [''/f'' \<mapsto> ''c.tar'']
        [''FILE__OFFEN_BACKUP_FILENAME'' \<mapsto> ''/f'', ''OFFEN_BACKUP_FILENAME'' \<mapsto> ''b.tar''])
        = Inl e)"
proof -
  let ?E = "[''AWS_ACCESS_KEY_ID'' \<mapsto> ''a'', ''OFFEN_STORAGE_AWS_ACCESSKEYID'' \<mapsto> ''b'']"
  let ?F = "[''FILE__OFFEN_BACKUP_FILENAME'' \<mapsto> ''/f'', ''OFFEN_BACKUP_FILENAME'' \<mapsto> ''b.tar'']"
  have h1: "\<exists>m \<in> set mapping. ?E (from_name m) \<noteq> None \<and> ?E (to_name m) \<noteq> None"
    by (simp add: mapping_def)
  have h2: "\<exists>evr \<in> set [''FILE__OFFEN_BACKUP_FILENAME=/f'']. ?F (target evr) \<noteq> None"
    by (simp add: target_def env_key_def Cut_def TrimPrefix_def)
  from conflict_error [of ?E] h1
  have "\<exists>m \<in> set mapping.
      fst (mapLegacyVariables ?E) = Inl (LegacyConflictError (to_name m) (from_name m))"
    by blast
  moreover
  from conflict_error [of ?F "[''FILE__OFFEN_BACKUP_FILENAME=/f'']" "[''/f'' \<mapsto> ''c.tar'']"]
    h2 example_conflict_vars
  have "\<exists>e. fst (mapEnvironmentFiles [''FILE__OFFEN_BACKUP_FILENAME=/f''] [''/f'' \<mapsto> ''c.tar'']
      ?F) = Inl e"
    by blast
  ultimately show ?thesis
    using h1 h2 example_conflict_vars by blast
qed

text \<open>
  C2 as stated fails: with \<^verbatim>\<open>AWS_ACCESS_KEY_ID\<close> and its canonical counterpart set,
  \<^verbatim>\<open>mapLegacyVariables\<close> returns the conflict error and leaves the legacy variable
  unset. And with an indirection variable whose target is set, \<^verbatim>\<open>mapEnvironmentFiles\<close>
  returns the read error of an entry it worked through earlier, not a conflict error.
\<close>

theorem conflict_error_counterexample:
  "mapLegacyVariables
     [''AWS_ACCESS_KEY_ID'' \<mapsto> ''a'', ''OFFEN_STORAGE_AWS_ACCESSKEYID'' \<mapsto> ''b'']
   = (Inl (LegacyConflictError ''OFFEN_STORAGE_AWS_ACCESSKEYID'' ''AWS_ACCESS_KEY_ID''),
      [''OFFEN_STORAGE_AWS_ACCESSKEYID'' \<mapsto> ''b''])
   \<and> [''OFFEN_STORAGE_AWS_ACCESSKEYID'' \<mapsto> ''b'']
       \<noteq> [''AWS_ACCESS_KEY_ID'' \<mapsto> ''a'', ''OFFEN_STORAGE_AWS_ACCESSKEYID'' \<mapsto> ''b'']
   \<and> prefixed_vars
       [''FILE__OFFEN_BACKUP_FILENAME'' \<mapsto> ''/g'', ''FILE__OFFEN_BACKUP_ARCHIVE'' \<mapsto> ''/f'',
        ''OFFEN_BACKUP_ARCHIVE'' \<mapsto> ''b'']
       [''FILE__OFFEN_BACKUP_FILENAME=/g'', ''FILE__OFFEN_BACKUP_ARCHIVE=/f'']
   \<and> fst (mapEnvironmentFiles
         [''FILE__OFFEN_BACKUP_FILENAME=/g'', ''FILE__OFFEN_BACKUP_ARCHIVE=/f'']
         [''/f'' \<mapsto> ''c'']
         [''FILE__OFFEN_BACKUP_FILENAME'' \<mapsto> ''/g'', ''FILE__OFFEN_BACKUP_ARCHIVE'' \<mapsto> ''/f'',
          ''OFFEN_BACKUP_ARCHIVE'' \<mapsto> ''b''])
     = Inl (ReadFileError ''/g'')"
proof -
  have "[''OFFEN_STORAGE_AWS_ACCESSKEYID'' \<mapsto> ''b'']
       \<noteq> [''AWS_ACCESS_KEY_ID'' \<mapsto> ''a'', ''OFFEN_STORAGE_AWS_ACCESSKEYID'' \<mapsto> ''b'']"
    by (rule map_neqI [of _ "''AWS_ACCESS_KEY_ID''"]) simp
  moreover have "mapLegacyVariables
     [''AWS_ACCESS_KEY_ID'' \<mapsto> ''a'', ''OFFEN_STORAGE_AWS_ACCESSKEYID'' \<mapsto> ''b'']
   = (Inl (LegacyConflictError ''OFFEN_STORAGE_AWS_ACCESSKEYID'' ''AWS_ACCESS_KEY_ID''),
      [''OFFEN_STORAGE_AWS_ACCESSKEYID'' \<mapsto> ''b''])"
    by (simp add: mapLegacyVariables_def mapping_def legacy_Cons
        del: mapLegacyVariables_loop.simps(2))
  moreover have "prefixed_vars
       [''FILE__OFFEN_BACKUP_FILENAME'' \<mapsto> ''/g'', ''FILE__OFFEN_BACKUP_ARCHIVE'' \<mapsto> ''/f'',
        ''OFFEN_BACKUP_ARCHIVE'' \<mapsto> ''b'']
       [''FILE__OFFEN_BACKUP_FILENAME=/g'', ''FILE__OFFEN_BACKUP_ARCHIVE=/f'']"
    by (simp add: prefixed_vars_def env_key_def env_val_def Cut_def NUL_def)
  moreover have "fst (mapEnvironmentFiles
         [''FILE__OFFEN_BACKUP_FILENAME=/g'', ''FILE__OFFEN_BACKUP_ARCHIVE=/f'']
         [''/f'' \<mapsto> ''c'']
         [''FILE__OFFEN_BACKUP_FILENAME'' \<mapsto> ''/g'', ''FILE__OFFEN_BACKUP_ARCHIVE'' \<mapsto> ''/f'',
          ''OFFEN_BACKUP_ARCHIVE'' \<mapsto> ''b''])
     = Inl (ReadFileError ''/g'')"
    by (simp add: mapEnvironmentFiles_def Cut_def Unsetenv_def LookupEnv_def
        TrimPrefix_def ReadFile_def Setenv_def Let_def)
  ultimately show ?thesis by blast
qed

subsection \<open>The scheduler\<close>

lemma runAsCommand_env_no_match:
  "\<forall>config \<in> set configurations. source config \<noteq> opts_source \<Longrightarrow>
   runAsCommand_env runScript opts_source configurations = None"
  by (induction configurations) simp_all

lemma runAsCommand_label_no_match:
  "\<forall>config \<in> set configurations. source config \<noteq> opts_source \<Longrightarrow>
   runAsCommand_label runProxy opts_source configurations = None"
  by (induction configurations) simp_all

text \<open>
  C10. When both strategies source their configurations and no configuration of either
  has the requested source, \<^verbatim>\<open>runAsCommand\<close> starts no run and returns \<^verbatim>\<open>nil\<close>.
\<close>

theorem runAsCommand_no_match:
  assumes "sourceConfiguration configStrategyEnv = Inr envConfigurations"
    and "sourceConfiguration configStrategyLabel = Inr labelConfigurations"
    and "\<forall>config \<in> set envConfigurations. source config \<noteq> opts_source"
    and "\<forall>config \<in> set labelConfigurations. source config \<noteq> opts_source"
  shows "runAsCommand sourceConfiguration runScript runProxy opts_source = (None, [])"
  using assms
  by (simp add: runAsCommand_def runAsCommand_env_no_match runAsCommand_label_no_match)

theorem runAsCommand_no_match_witness:
  "runAsCommand
     (\<lambda>strategy. if strategy = configStrategyEnv
        then Inr [\<lparr>source = ''from environment'', BackupCronExpression = ''@daily''\<rparr>]
        else Inr [\<lparr>source = ''volume_a'', BackupCronExpression = ''@weekly''\<rparr>])
     (\<lambda>config. Some (ExternalError ''script'')) (\<lambda>config. Some (ExternalError ''proxy''))
     ''volume_b''
   = (None, [])"
  using runAsCommand_no_match
    [of "\<lambda>strategy. if strategy = configStrategyEnv
        then Inr [\<lparr>source = ''from environment'', BackupCronExpression = ''@daily''\<rparr>]
        else Inr [\<lparr>source = ''volume_a'', BackupCronExpression = ''@weekly''\<rparr>]"
      "[\<lparr>source = ''from environment'', BackupCronExpression = ''@daily''\<rparr>]"
      "[\<lparr>source = ''volume_a'', BackupCronExpression = ''@weekly''\<rparr>]"
      "''volume_b''" "\<lambda>config. Some (ExternalError ''script'')"
      "\<lambda>config. Some (ExternalError ''proxy'')"]
  by simp

text \<open>
  C3 is what the comment above \<^verbatim>\<open>scheduleConfd\<close> promises, and the code does not keep
  it: with one sourced configuration whose expression does fire, the first call leaves
  one entry in the engine and the second call, on the same configuration, leaves two.
  The identifier of an entry is recorded for later removal only in the branch that
  warns about an expression that never fires.
\<close>

theorem scheduleConfd_twice_doubles:
  "scheduleConfd (\<lambda>spec. True) (\<lambda>spec. True)
     (\<lambda>strategy. Inr [\<lparr>source = ''a.env'', BackupCronExpression = ''@daily''\<rparr>])
     newCommand
   = (None,
      \<lparr>logger = [LogInfo ''Successfully scheduled backup a.env with expression @daily''],
       schedules = (\<lambda>strategy. []),
       cr = \<lparr>entries =
               [(1, ''@daily'',
                 RunScriptJob \<lparr>source = ''a.env'', BackupCronExpression = ''@daily''\<rparr>)],
             nextID = 1\<rparr>\<rparr>)
   \<and> scheduleConfd_twice (\<lambda>spec. True) (\<lambda>spec. True)
       (\<lambda>strategy. Inr [\<lparr>source = ''a.env'', BackupCronExpression = ''@daily''\<rparr>])
       newCommand
   = (None,
      \<lparr>logger = [LogInfo ''Successfully scheduled backup a.env with expression @daily'',
                 LogInfo ''Successfully scheduled backup a.env with expression @daily''],
       schedules = (\<lambda>strategy. []),
       cr = \<lparr>entries =
               [(1, ''@daily'',
                 RunScriptJob \<lparr>source = ''a.env'', BackupCronExpression = ''@daily''\<rparr>),
                (2, ''@daily'',
                 RunScriptJob \<lparr>source = ''a.env'', BackupCronExpression = ''@daily''\<rparr>)],
             nextID = 2\<rparr>\<rparr>)"
  by (simp add: scheduleConfd_twice_def scheduleConfd_def newCommand_def cron_New_def
      remove_schedules_def cron_AddFunc_def cron_Remove_def Let_def)

lemma scheduleConfd_loop_valid:
  assumes "\<forall>cfg \<in> set cfgs. valid (BackupCronExpression cfg)"
  shows "fst (scheduleConfd_loop valid check cfgs c) = None
    \<and> set (entries (cr c)) \<subseteq> set (entries (cr (snd (scheduleConfd_loop valid check cfgs c))))
    \<and> set (logger c) \<subseteq> set (logger (snd (scheduleConfd_loop valid check cfgs c)))
    \<and> (\<forall>cfg \<in> set cfgs. \<not> check (BackupCronExpression cfg) \<longrightarrow>
          (\<exists>entryID. nextID (cr c) < entryID
              \<and> (entryID, BackupCronExpression cfg, RunScriptJob cfg)
                \<in> set (entries (cr (snd (scheduleConfd_loop valid check cfgs c)))))
          \<and> LogWarn (''Scheduled cron expression '' @ BackupCronExpression cfg
                @ '' will never run, is this intentional?'')
              \<in> set (logger (snd (scheduleConfd_loop valid check cfgs c))))"
  using assms
proof (induction cfgs arbitrary: c)
  case Nil
  then show ?case by simp
next
  case (Cons config cfgs)
  let ?e = "BackupCronExpression config"
  let ?w = "LogWarn (''Scheduled cron expression '' @ ?e @ '' will never run, is this intentional?'')"
  let ?i = "LogInfo (''Successfully scheduled backup '' @ source config
                         @ '' with expression '' @ ?e)"
  let ?cr = "\<lparr>entries = entries (cr c) @ [(nextID (cr c) + 1, ?e, RunScriptJob config)],
             nextID = nextID (cr c) + 1\<rparr>"
  let ?c1 = "c\<lparr>cr := ?cr, logger := logger c @ [?i]\<rparr>"
  let ?c2 = "?c1\<lparr>logger := logger ?c1 @ [?w],
               schedules := (schedules ?c1)
                 (configStrategyConfd := schedules ?c1 configStrategyConfd @ [nextID (cr c) + 1])\<rparr>"
  let ?c' = "if \<not> check ?e then ?c2 else ?c1"
  from Cons.prems have v: "valid ?e" and vs: "\<forall>cfg \<in> set cfgs. valid (BackupCronExpression cfg)"
    by simp_all
  have step: "scheduleConfd_loop valid check (config # cfgs) c
      = scheduleConfd_loop valid check cfgs ?c'"
    using v by (simp add: cron_AddFunc_def Let_def)
  have e: "(nextID (cr c) + 1, ?e, RunScriptJob config) \<in> set (entries (cr ?c'))"
    and es: "set (entries (cr c)) \<subseteq> set (entries (cr ?c'))"
    and ls: "set (logger c) \<subseteq> set (logger ?c')"
    and w: "\<not> check ?e \<Longrightarrow> ?w \<in> set (logger ?c')"
    by auto
  note IH = Cons.IH [OF vs, of ?c']
  let ?r = "snd (scheduleConfd_loop valid check cfgs ?c')"
  from IH have i1: "fst (scheduleConfd_loop valid check cfgs ?c') = None"
    and i2: "set (entries (cr ?c')) \<subseteq> set (entries (cr ?r))"
    and i3: "set (logger ?c') \<subseteq> set (logger ?r)"
    and i4: "\<And>cfg. cfg \<in> set cfgs \<Longrightarrow> \<not> check (BackupCronExpression cfg) \<Longrightarrow>
          (\<exists>entryID. nextID (cr ?c') < entryID
             \<and> (entryID, BackupCronExpression cfg, RunScriptJob cfg) \<in> set (entries (cr ?r)))
          \<and> LogWarn (''Scheduled cron expression '' @ BackupCronExpression cfg
                @ '' will never run, is this intentional?'') \<in> set (logger ?r)"
    by blast+
  have n: "nextID (cr ?c') = nextID (cr c) + 1" by simp
  have h: "(\<exists>entryID. nextID (cr c) < entryID
             \<and> (entryID, BackupCronExpression cfg, RunScriptJob cfg) \<in> set (entries (cr ?r)))
          \<and> LogWarn (''Scheduled cron expression '' @ BackupCronExpression cfg
                @ '' will never run, is this intentional?'') \<in> set (logger ?r)"
    if "cfg \<in> set (config # cfgs)" and n': "\<not> check (BackupCronExpression cfg)" for cfg
  proof (cases "cfg = config")
    case True
    from e i2 have "(nextID (cr c) + 1, ?e, RunScriptJob config) \<in> set (entries (cr ?r))"
      by (rule set_mp [rotated])
    moreover from w n' True i3 have "?w \<in> set (logger ?r)" by blast
    ultimately show ?thesis using True by auto
  next
    case False
    with that have "cfg \<in> set cfgs" by simp
    from i4 [OF this n'] obtain entryID where "nextID (cr ?c') < entryID"
      and "(entryID, BackupCronExpression cfg, RunScriptJob cfg) \<in> set (entries (cr ?r))"
      and "LogWarn (''Scheduled cron expression '' @ BackupCronExpression cfg
                @ '' will never run, is this intentional?'') \<in> set (logger ?r)"
      by blast
    moreover from this(1) n have "nextID (cr c) < entryID" by simp
    ultimately show ?thesis by blast
  qed
  from es i2 have "set (entries (cr c)) \<subseteq> set (entries (cr ?r))" by (rule subset_trans)
  moreover from ls i3 have "set (logger c) \<subseteq> set (logger ?r)" by (rule subset_trans)
  ultimately show ?case
    unfolding step using i1 h by blast
qed

lemma scheduleLabel_loop_valid:
  assumes "\<forall>cfg \<in> set cfgs. valid (BackupCronExpression cfg)"
  shows "fst (scheduleLabel_loop valid check cfgs c) = None
    \<and> set (entries (cr c)) \<subseteq> set (entries (cr (snd (scheduleLabel_loop valid check cfgs c))))
    \<and> set (logger c) \<subseteq> set (logger (snd (scheduleLabel_loop valid check cfgs c)))
    \<and> (\<forall>cfg \<in> set cfgs. \<not> check (BackupCronExpression cfg) \<longrightarrow>
          (\<exists>entryID. nextID (cr c) < entryID
              \<and> (entryID, BackupCronExpression cfg, RunProxyJob cfg)
                \<in> set (entries (cr (snd (scheduleLabel_loop valid check cfgs c)))))
          \<and> LogWarn (''Scheduled cron expression '' @ BackupCronExpression cfg
                @ '' will never run, is this intentional?'')
              \<in> set (logger (snd (scheduleLabel_loop valid check cfgs c))))"
  using assms
proof (induction cfgs arbitrary: c)
  case Nil
  then show ?case by simp
next
  case (Cons config cfgs)
  let ?e = "BackupCronExpression config"
  let ?w = "LogWarn (''Scheduled cron expression '' @ ?e @ '' will never run, is this intentional?'')"
  let ?i = "LogInfo (''Successfully scheduled backup '' @ source config
                         @ '' with expression '' @ ?e)"
  let ?c1 = "if \<not> check ?e then c\<lparr>logger := logger c @ [?w]\<rparr> else c"
  let ?cr = "\<lparr>entries = entries (cr c) @ [(nextID (cr c) + 1, ?e, RunProxyJob config)],
             nextID = nextID (cr c) + 1\<rparr>"
  let ?c' = "?c1\<lparr>cr := ?cr, logger := logger ?c1 @ [?i],
               schedules := (schedules ?c1)
                 (configStrategyConfd := schedules ?c1 configStrategyConfd @ [nextID (cr c) + 1])\<rparr>"
  from Cons.prems have v: "valid ?e" and vs: "\<forall>cfg \<in> set cfgs. valid (BackupCronExpression cfg)"
    by simp_all
  have step: "scheduleLabel_loop valid check (config # cfgs) c
      = scheduleLabel_loop valid check cfgs ?c'"
    using v by (simp add: cron_AddFunc_def Let_def)
  have e: "(nextID (cr c) + 1, ?e, RunProxyJob config) \<in> set (entries (cr ?c'))"
    and es: "set (entries (cr c)) \<subseteq> set (entries (cr ?c'))"
    and ls: "set (logger c) \<subseteq> set (logger ?c')"
    and w: "\<not> check ?e \<Longrightarrow> ?w \<in> set (logger ?c')"
    by auto
  note IH = Cons.IH [OF vs, of ?c']
  let ?r = "snd (scheduleLabel_loop valid check cfgs ?c')"
  from IH have i1: "fst (scheduleLabel_loop valid check cfgs ?c') = None"
    and i2: "set (entries (cr ?c')) \<subseteq> set (entries (cr ?r))"
    and i3: "set (logger ?c') \<subseteq> set (logger ?r)"
    and i4: "\<And>cfg. cfg \<in> set cfgs \<Longrightarrow> \<not> check (BackupCronExpression cfg) \<Longrightarrow>
          (\<exists>entryID. nextID (cr ?c') < entryID
             \<and> (entryID, BackupCronExpression cfg, RunProxyJob cfg) \<in> set (entries (cr ?r)))
          \<and> LogWarn (''Scheduled cron expression '' @ BackupCronExpression cfg
                @ '' will never run, is this intentional?'') \<in> set (logger ?r)"
    by blast+
  have n: "nextID (cr ?c') = nextID (cr c) + 1" by simp
  have h: "(\<exists>entryID. nextID (cr c) < entryID
             \<and> (entryID, BackupCronExpression cfg, RunProxyJob cfg) \<in> set (entries (cr ?r)))
          \<and> LogWarn (''Scheduled cron expression '' @ BackupCronExpression cfg
                @ '' will never run, is this intentional?'') \<in> set (logger ?r)"
    if "cfg \<in> set (config # cfgs)" and n': "\<not> check (BackupCronExpression cfg)" for cfg
  proof (cases "cfg = config")
    case True
    from e i2 have "(nextID (cr c) + 1, ?e, RunProxyJob config) \<in> set (entries (cr ?r))"
      by (rule set_mp [rotated])
    moreover from w n' True i3 have "?w \<in> set (logger ?r)" by blast
    ultimately show ?thesis using True by auto
  next
    case False
    with that have "cfg \<in> set cfgs" by simp
    from i4 [OF this n'] obtain entryID where "nextID (cr ?c') < entryID"
      and "(entryID, BackupCronExpression cfg, RunProxyJob cfg) \<in> set (entries (cr ?r))"
      and "LogWarn (''Scheduled cron expression '' @ BackupCronExpression cfg
                @ '' will never run, is this intentional?'') \<in> set (logger ?r)"
      by blast
    moreover from this(1) n have "nextID (cr c) < entryID" by simp
    ultimately show ?thesis by blast
  qed
  from es i2 have "set (entries (cr c)) \<subseteq> set (entries (cr ?r))" by (rule subset_trans)
  moreover from ls i3 have "set (logger c) \<subseteq> set (logger ?r)" by (rule subset_trans)
  ultimately show ?case
    unfolding step using i1 h by blast
qed

lemma remove_schedules_nextID: "nextID (remove_schedules ids c) = nextID c"
  unfolding remove_schedules_def
  by (induction ids arbitrary: c) (simp_all add: cron_Remove_def)

text \<open>
  C9. When the strategy's configurations are sourced and every cron expression among
  them is one the parser accepts, the reload returns no error; and for every
  configuration whose expression never fires, the engine holds afterwards an entry for
  it under an identifier this reload assigned, and the log holds the warning. This holds for \<^verbatim>\<open>scheduleConfd\<close> and for
  \<^verbatim>\<open>scheduleLabel\<close>.
\<close>

theorem never_firing_schedule_accepted:
  assumes "sourceConfiguration configStrategyConfd = Inr confd"
    and "sourceConfiguration configStrategyLabel = Inr label"
    and "\<forall>cfg \<in> set confd. valid (BackupCronExpression cfg)"
    and "\<forall>cfg \<in> set label. valid (BackupCronExpression cfg)"
  shows "fst (scheduleConfd valid checkCronSchedule sourceConfiguration c) = None
    \<and> (\<forall>cfg \<in> set confd. \<not> checkCronSchedule (BackupCronExpression cfg) \<longrightarrow>
          (\<exists>entryID. nextID (cr c) < entryID
              \<and> (entryID, BackupCronExpression cfg, RunScriptJob cfg)
                \<in> set (entries (cr (snd
                      (scheduleConfd valid checkCronSchedule sourceConfiguration c)))))
          \<and> LogWarn (''Scheduled cron expression '' @ BackupCronExpression cfg
                @ '' will never run, is this intentional?'')
              \<in> set (logger (snd (scheduleConfd valid checkCronSchedule sourceConfiguration c))))
    \<and> fst (scheduleLabel valid checkCronSchedule sourceConfiguration c) = None
    \<and> (\<forall>cfg \<in> set label. \<not> checkCronSchedule (BackupCronExpression cfg) \<longrightarrow>
          (\<exists>entryID. nextID (cr c) < entryID
              \<and> (entryID, BackupCronExpression cfg, RunProxyJob cfg)
                \<in> set (entries (cr (snd
                      (scheduleLabel valid checkCronSchedule sourceConfiguration c)))))
          \<and> LogWarn (''Scheduled cron expression '' @ BackupCronExpression cfg
                @ '' will never run, is this intentional?'')
              \<in> set (logger (snd (scheduleLabel valid checkCronSchedule sourceConfiguration c))))"
proof -
  let ?c0 = "c\<lparr>cr := remove_schedules (schedules c configStrategyConfd) (cr c)\<rparr>"
  let ?c1 = "c\<lparr>cr := remove_schedules (schedules c configStrategyLabel) (cr c)\<rparr>"
  have a: "scheduleConfd valid checkCronSchedule sourceConfiguration c
      = scheduleConfd_loop valid checkCronSchedule confd ?c0"
    using assms(1) by (simp add: scheduleConfd_def Let_def)
  have b: "scheduleLabel valid checkCronSchedule sourceConfiguration c
      = scheduleLabel_loop valid checkCronSchedule label ?c1"
    using assms(2) by (simp add: scheduleLabel_def Let_def)
  have n: "nextID (cr ?c0) = nextID (cr c)" "nextID (cr ?c1) = nextID (cr c)"
    by (simp_all add: remove_schedules_nextID)
  from scheduleConfd_loop_valid [OF assms(3), of checkCronSchedule ?c0]
    scheduleLabel_loop_valid [OF assms(4), of checkCronSchedule ?c1]
  show ?thesis unfolding a b n by blast
qed

theorem never_firing_schedule_accepted_witness:
  "scheduleConfd (\<lambda>spec. True) (\<lambda>spec. False)
     (\<lambda>strategy. Inr [\<lparr>source = ''a.env'', BackupCronExpression = ''0 0 31 2 *''\<rparr>])
     newCommand
   = (None,
      \<lparr>logger = [LogInfo ''Successfully scheduled backup a.env with expression 0 0 31 2 *'',
                 LogWarn
                   ''Scheduled cron expression 0 0 31 2 * will never run, is this intentional?''],
       schedules = (\<lambda>strategy. [])(configStrategyConfd := [1]),
       cr = \<lparr>entries =
               [(1, ''0 0 31 2 *'',
                 RunScriptJob \<lparr>source = ''a.env'', BackupCronExpression = ''0 0 31 2 *''\<rparr>)],
             nextID = 1\<rparr>\<rparr>)
   \<and> fst (scheduleLabel (\<lambda>spec. True) (\<lambda>spec. False)
     (\<lambda>strategy. Inr [\<lparr>source = ''a.env'', BackupCronExpression = ''0 0 31 2 *''\<rparr>])
     newCommand) = None"
proof -
  let ?cfg = "\<lparr>source = ''a.env'', BackupCronExpression = ''0 0 31 2 *''\<rparr>"
  from never_firing_schedule_accepted
    [of "\<lambda>strategy. Inr [?cfg]" "[?cfg]" "[?cfg]" "\<lambda>spec. True" "\<lambda>spec. False" newCommand]
  have "fst (scheduleLabel (\<lambda>spec. True) (\<lambda>spec. False) (\<lambda>strategy. Inr [?cfg]) newCommand)
      = None"
    by simp
  moreover have "scheduleConfd (\<lambda>spec. True) (\<lambda>spec. False) (\<lambda>strategy. Inr [?cfg]) newCommand
   = (None,
      \<lparr>logger = [LogInfo ''Successfully scheduled backup a.env with expression 0 0 31 2 *'',
                 LogWarn
                   ''Scheduled cron expression 0 0 31 2 * will never run, is this intentional?''],
       schedules = (\<lambda>strategy. [])(configStrategyConfd := [1]),
       cr = \<lparr>entries = [(1, ''0 0 31 2 *'', RunScriptJob ?cfg)], nextID = 1\<rparr>\<rparr>)"
    by (simp add: scheduleConfd_def newCommand_def cron_New_def
      remove_schedules_def cron_AddFunc_def cron_Remove_def Let_def)
  ultimately show ?thesis by simp
qed

subsection \<open>The script\<close>

lemma fired_Cons: "fired (h # hs) err = snd (action h err) @ fired hs err"
  by (simp add: fired_def)

lemma registered_hooks:
  assumes "init_notification_hooks CreateSender parseDefault parseUserDefined
      notifyFailure notifySuccess urls = Inr registered"
  shows "registered = [] \<or> registered =
    [\<lparr>level = hookLevelError, action = error_hook notifyFailure\<rparr>,
     \<lparr>level = hookLevelInfo, action = info_hook notifySuccess\<rparr>]"
  using assms
  by (auto simp: init_notification_hooks_def split: if_splits option.splits)

lemma fired_registered:
  assumes "set hs \<subseteq> {\<lparr>level = hookLevelError, action = error_hook notifyFailure\<rparr>,
     \<lparr>level = hookLevelInfo, action = info_hook notifySuccess\<rparr>}"
  shows "set (fired hs err) \<subseteq> (case err of None \<Rightarrow> {NotifySuccess} | Some e \<Rightarrow> {NotifyFailure e})"
  using assms
proof (induction hs)
  case Nil
  show ?case by (simp add: fired_def)
next
  case (Cons h hs)
  then have "h = \<lparr>level = hookLevelError, action = error_hook notifyFailure\<rparr>
      \<or> h = \<lparr>level = hookLevelInfo, action = info_hook notifySuccess\<rparr>"
    by auto
  then have "set (snd (action h err))
      \<subseteq> (case err of None \<Rightarrow> {NotifySuccess} | Some e \<Rightarrow> {NotifyFailure e})"
    by (auto simp: error_hook_def info_hook_def split: option.splits)
  with Cons show ?case by (simp add: fired_Cons)
qed

text \<open>
  C4. Whichever of the hooks that \<^verbatim>\<open>init\<close> registers for notifications a run invokes
  with its final error, a success notification is sent only when that error is
  \<^verbatim>\<open>nil\<close>, a failure notification only when it is not (and then for that error), and
  never both. When both hooks are invoked, exactly one notification is sent.
\<close>

theorem notification_hooks_exclusive:
  assumes "init_notification_hooks CreateSender parseDefault parseUserDefined
      notifyFailure notifySuccess urls = Inr registered"
    and "set hs \<subseteq> set registered"
  shows "(NotifySuccess \<in> set (fired hs err) \<longrightarrow> err = None)
    \<and> (\<forall>e. NotifyFailure e \<in> set (fired hs err) \<longrightarrow> err = Some e)
    \<and> \<not> (NotifySuccess \<in> set (fired hs err) \<and> (\<exists>e. NotifyFailure e \<in> set (fired hs err)))
    \<and> (urls \<noteq> [] \<longrightarrow>
         fired registered err = (case err of None \<Rightarrow> [NotifySuccess] | Some e \<Rightarrow> [NotifyFailure e]))"
proof -
  from registered_hooks [OF assms(1)] assms(2)
  have "set hs \<subseteq> {\<lparr>level = hookLevelError, action = error_hook notifyFailure\<rparr>,
     \<lparr>level = hookLevelInfo, action = info_hook notifySuccess\<rparr>}"
    by auto
  from fired_registered [OF this, of err]
  have "(NotifySuccess \<in> set (fired hs err) \<longrightarrow> err = None)
    \<and> (\<forall>e. NotifyFailure e \<in> set (fired hs err) \<longrightarrow> err = Some e)"
    by (cases err) auto
  moreover have "urls \<noteq> [] \<longrightarrow>
      fired registered err = (case err of None \<Rightarrow> [NotifySuccess] | Some e \<Rightarrow> [NotifyFailure e])"
    using assms(1)
    by (auto simp: init_notification_hooks_def fired_def error_hook_def info_hook_def
        split: option.splits)
  ultimately show ?thesis by auto
qed

lemma example_hooks:
  "init_notification_hooks (\<lambda>urls. None) None None (\<lambda>e. None) None [''smtp://host'']
   = Inr [\<lparr>level = hookLevelError, action = error_hook (\<lambda>e. None)\<rparr>,
          \<lparr>level = hookLevelInfo, action = info_hook None\<rparr>]"
  by (simp add: init_notification_hooks_def)

theorem notification_hooks_exclusive_witness:
  "init_notification_hooks (\<lambda>urls. None) None None (\<lambda>e. None) None [''smtp://host'']
   = Inr [\<lparr>level = hookLevelError, action = error_hook (\<lambda>e. None)\<rparr>,
          \<lparr>level = hookLevelInfo, action = info_hook None\<rparr>]
   \<and> fired [\<lparr>level = hookLevelError, action = error_hook (\<lambda>e. None)\<rparr>,
             \<lparr>level = hookLevelInfo, action = info_hook None\<rparr>]
        (Some (ExternalError ''archive failed''))
      = [NotifyFailure (ExternalError ''archive failed'')]
   \<and> fired [\<lparr>level = hookLevelError, action = error_hook (\<lambda>e. None)\<rparr>,
             \<lparr>level = hookLevelInfo, action = info_hook None\<rparr>] None
      = [NotifySuccess]"
  using notification_hooks_exclusive
    [OF example_hooks subset_refl, of "Some (ExternalError ''archive failed'')"]
    notification_hooks_exclusive [OF example_hooks subset_refl, of None]
    example_hooks
  by simp

text \<open>
  C8. When the template parses and executes, \<^verbatim>\<open>init\<close> leaves as file name: the template
  made of \<^verbatim>\<open>/tmp\<close> joined with the configured name, executed with \<^verbatim>\<open>Extension\<close> bound
  to \<^verbatim>\<open>tar.\<close> followed by the compression kind; then, only when \<^verbatim>\<open>FilenameExpand\<close> is
  set, expanded against the environment; then formatted against the start time of the run.
\<close>

theorem init_file_order:
  assumes "template_Parse lib (path_Join lib ''/tmp'' (Filename (script_c s))) = Inr tmpl"
    and "template_Execute lib tmpl [''Extension'' \<mapsto> ''tar.'' @ Compression (script_c s)]
          = Inr expanded"
  shows "\<exists>s'. init_file lib s = Inr s'
    \<and> StartTime s' = StartTime s
    \<and> script_file s' =
        Strftime lib (StartTime s)
          (if FilenameExpand (script_c s) then ExpandEnv lib expanded else expanded)"
  using assms by (simp add: init_file_def Let_def)

theorem init_file_order_witness:
  "\<exists>s'. init_file
       \<lparr>path_Join = (\<lambda>a b. a @ ''/'' @ b), template_Parse = Inr,
        template_Execute = (\<lambda>t vars. case vars ''Extension'' of
           None \<Rightarrow> Inl (ExternalError ''no value'') | Some x \<Rightarrow> Inr (t @ x)),
        ExpandEnv = (\<lambda>t. t @ ''-expanded''), Strftime = (\<lambda>t x. x @ ''-formatted'')\<rparr>
       \<lparr>script_c = \<lparr>Filename = ''backup.'', Compression = ''gz'', FilenameExpand = True,
          LatestSymlink = '''', PruningPrefix = ''''\<rparr>,
        script_file = '''', StartTime = 0\<rparr> = Inr s'
     \<and> script_file s' = ''/tmp/backup.tar.gz-expanded-formatted''"
  using init_file_order
    [of "\<lparr>path_Join = (\<lambda>a b. a @ ''/'' @ b), template_Parse = Inr,
        template_Execute = (\<lambda>t vars. case vars ''Extension'' of
           None \<Rightarrow> Inl (ExternalError ''no value'') | Some x \<Rightarrow> Inr (t @ x)),
        ExpandEnv = (\<lambda>t. t @ ''-expanded''), Strftime = (\<lambda>t x. x @ ''-formatted'')\<rparr>"
      "\<lparr>script_c = \<lparr>Filename = ''backup.'', Compression = ''gz'', FilenameExpand = True,
          LatestSymlink = '''', PruningPrefix = ''''\<rparr>,
        script_file = '''', StartTime = 0\<rparr>"
      "''/tmp/backup.''" "''/tmp/backup.tar.gz''"]
  by auto

subsection \<open>CertDecoder\<close>

lemma CertDecoder_Decode_nil_block:
  "v \<noteq> '''' \<Longrightarrow> pem_Decode (case ReadFile fs v of None \<Rightarrow> v | Some content \<Rightarrow> content) = None
   \<Longrightarrow> CertDecoder_Decode fs pem_Decode ParseCertificate c v = Panics"
  by (simp add: CertDecoder_Decode_def)




end
